theory Spec2Isabelle
  imports Complex_Main "HOL-Library.AList"
begin

section \<open>Python values, dictionaries, strings\<close>

text \<open>
  The hybrid retrieval engine of \<^verbatim>\<open>backend/hybrid_retrieval.py\<close> and
  \<^verbatim>\<open>backend/rag.py\<close>. Python floats are modelled as reals, Python dictionaries as
  association lists in insertion order (\<open>AList.update\<close> overwrites in place and appends a
  new key at the end, as a Python dict does), exceptions as the left summand of a sum.
\<close>

datatype error = KeyError | IndexError | AttributeError | ZeroDivisionError | StoreError

datatype pyval = PyStr string | PyInt int | PyFloat real

type_synonym metadata = "(string \<times> pyval) list"

text \<open>\<^verbatim>\<open>d.get(k)\<close> is \<open>map_of d k\<close>; \<^verbatim>\<open>d[k]\<close> raises on a missing key.\<close>

definition getitem :: "('k \<times> 'v) list \<Rightarrow> 'k \<Rightarrow> error + 'v" where
  "getitem d k = (case map_of d k of None \<Rightarrow> Inl KeyError | Some v \<Rightarrow> Inr v)"

text \<open>A dict comprehension over \<^verbatim>\<open>zip(keys, values)\<close>: a later pair overwrites.\<close>

definition dict_of :: "('k \<times> 'v) list \<Rightarrow> ('k \<times> 'v) list" where
  "dict_of kvs = foldl (\<lambda>d (k, v). AList.update k v d) [] kvs"

text \<open>
  A character of the model is a Unicode code point below 256. \<^verbatim>\<open>str.isspace\<close> holds
  there for the code points 9 to 13, 28 to 32, 133 and 160; \<^verbatim>\<open>str.lower\<close> maps
  \<open>A\<close> to \<open>Z\<close> and the code points 192 to 222, but for 215, to the code point 32 above.
\<close>

definition is_space :: "char \<Rightarrow> bool" where
  "is_space c =
     (let n = (of_char c :: nat)
      in (9 \<le> n \<and> n \<le> 13) \<or> (28 \<le> n \<and> n \<le> 32) \<or> n = 133 \<or> n = 160)"

definition lower_char :: "char \<Rightarrow> char" where
  "lower_char c =
     (case map_of (zip ''ABCDEFGHIJKLMNOPQRSTUVWXYZ'' ''abcdefghijklmnopqrstuvwxyz'') c of
        Some l \<Rightarrow> l
      | None \<Rightarrow>
          (let n = (of_char c :: nat)
           in if 192 \<le> n \<and> n \<le> 222 \<and> n \<noteq> 215 then char_of (n + 32) else c))"

definition lower :: "string \<Rightarrow> string" where
  "lower s = map lower_char s"

text \<open>\<^verbatim>\<open>s.split()\<close>: the maximal runs of non-whitespace characters.\<close>

fun split_from :: "string \<Rightarrow> string \<Rightarrow> string list" where
  "split_from cur [] = (if cur = [] then [] else [cur])"
| "split_from cur (c # cs) =
     (if is_space c then (if cur = [] then split_from [] cs else cur # split_from [] cs)
      else split_from (cur @ [c]) cs)"

definition split :: "string \<Rightarrow> string list" where
  "split s = split_from [] s"

text \<open>\<^verbatim>\<open>sep.join(parts)\<close>.\<close>

fun join :: "string \<Rightarrow> string list \<Rightarrow> string" where
  "join sep [] = []"
| "join sep [p] = p"
| "join sep (p # q # ps) = p @ sep @ join sep (q # ps)"

definition digit :: "nat \<Rightarrow> char" where
  "digit d = ''0123456789'' ! d"

fun str_nat :: "nat \<Rightarrow> string" where
  "str_nat n = (if n < 10 then [digit n] else str_nat (n div 10) @ [digit (n mod 10)])"

declare str_nat.simps [simp del]

definition str_int :: "int \<Rightarrow> string" where
  "str_int i = (if i < 0 then CHR ''-'' # str_nat (nat (- i)) else str_nat (nat i))"

text \<open>
  Library functions the engine calls but does not define: the BM25 constructor of
  \<^verbatim>\<open>rank_bm25\<close> (it returns the scoring function of the index, one score per corpus
  document, or raises), \<^verbatim>\<open>json.dumps\<close>, the \<^verbatim>\<open>str\<close> of a float, and the hash
  that fixes the iteration order of a Python set of strings (salted per process).
\<close>

record env =
  BM25Okapi :: "string list list \<Rightarrow> error + (string list \<Rightarrow> real list)"
  json_dumps :: "string list \<Rightarrow> string"
  str_float :: "real \<Rightarrow> string"
  str_hash :: "string \<Rightarrow> nat"

definition str_val :: "env \<Rightarrow> pyval \<Rightarrow> string" where
  "str_val E v = (case v of PyStr s \<Rightarrow> s | PyInt i \<Rightarrow> str_int i | PyFloat x \<Rightarrow> str_float E x)"

text \<open>
  Iterating a Python set of strings: each element once, in an order fixed by the hashes.
  The model enumerates by increasing hash.
\<close>

definition set_iter :: "env \<Rightarrow> string list \<Rightarrow> string list" where
  "set_iter E xs = sort_key (str_hash E) (remdups xs)"

text \<open>
  \<^verbatim>\<open>np.argsort(scores)\<close>: the indices in ascending order of score. The order numpy
  gives to equal scores is not specified; the model keeps them in index order.
\<close>

definition argsort :: "real list \<Rightarrow> nat list" where
  "argsort xs = sort_key (\<lambda>i. xs ! i) [0..<length xs]"

section \<open>The document store\<close>

text \<open>
  Modelled from the spec: the Chroma collection is an external collaborator; this is its
  interface contract of spec section 6. An entry is an identifier with a document and a
  metadata dict (either may be \<^verbatim>\<open>None\<close>). \<open>distance\<close> is the cosine distance of the
  embedding service between a query text and the entry with the given identifier. The two
  flags model an unreachable service: the operation raises.
\<close>

type_synonym entry = "string \<times> string option \<times> metadata option"

record collection =
  entries :: "entry list"
  distance :: "string \<Rightarrow> string \<Rightarrow> real"
  get_fails :: bool
  query_fails :: bool

type_synonym get_result = "string list \<times> string option list \<times> metadata option list"

definition unzip_entries :: "entry list \<Rightarrow> get_result" where
  "unzip_entries es = (map fst es, map (fst \<circ> snd) es, map (snd \<circ> snd) es)"

text \<open>Modelled from the spec: \<^verbatim>\<open>getAll()\<close>, the full-collection scan.\<close>

definition coll_get_all :: "collection \<Rightarrow> error + get_result" where
  "coll_get_all c = (if get_fails c then Inl StoreError else Inr (unzip_entries (entries c)))"

text \<open>Modelled from the spec: \<^verbatim>\<open>getByIds(ids)\<close>, the batched resolve.\<close>

definition coll_get :: "collection \<Rightarrow> string list \<Rightarrow> error + get_result" where
  "coll_get c ids =
     (if get_fails c then Inl StoreError
      else Inr (unzip_entries (filter (\<lambda>e. fst e \<in> set ids) (entries c))))"

definition entry_conv :: "entry \<Rightarrow> pyval option" where
  "entry_conv e = (case snd (snd e) of None \<Rightarrow> None | Some m \<Rightarrow> map_of m ''conversation_id'')"

text \<open>
  Modelled from the spec: \<^verbatim>\<open>query(text, limit, tenantFilter)\<close>, the nearest entries
  among those whose metadata carries the requested conversation id, nearest first, with
  their distances.
\<close>

definition coll_query :: "collection \<Rightarrow> string \<Rightarrow> nat \<Rightarrow> string \<Rightarrow> error + (string list \<times> real list)" where
  "coll_query c text n conversation_id =
     (if query_fails c then Inl StoreError
      else let matching = filter (\<lambda>e. entry_conv e = Some (PyStr conversation_id)) (entries c);
               nearest = take n (sort_key (\<lambda>e. distance c text (fst e)) matching)
           in Inr (map fst nearest, map (\<lambda>e. distance c text (fst e)) nearest))"

text \<open>Modelled from the spec: \<^verbatim>\<open>upsert(ids, documents, metadatas)\<close>, by identifier.\<close>

definition coll_upsert :: "collection \<Rightarrow> string list \<Rightarrow> string list \<Rightarrow> metadata list \<Rightarrow> collection" where
  "coll_upsert c ids documents metadatas =
     c\<lparr>entries := foldl (\<lambda>es (i, d, m). AList.update i (Some d, Some m) es) (entries c)
                     (zip ids (zip documents metadatas))\<rparr>"

section \<open>HybridRetriever\<close>

text \<open>
  The object state of \<^verbatim>\<open>HybridRetriever\<close>. \<open>bm25_index\<close> is \<open>None\<close> or the scoring
  function \<^verbatim>\<open>get_scores\<close> of the index built by the last rebuild. The collection the
  object points to is external and is passed to every operation.
\<close>

record hybrid_retriever =
  bm25_index :: "(string list \<Rightarrow> real list) option"
  doc_ids :: "string list"
  id_to_doc :: "(string \<times> string option) list"
  id_to_metadata :: "(string \<times> metadata option) list"

definition new_retriever :: hybrid_retriever where
  "new_retriever = \<lparr>bm25_index = None, doc_ids = [], id_to_doc = [], id_to_metadata = []\<rparr>"

text \<open>\<^verbatim>\<open>[doc.lower().split() for doc in documents]\<close>; a \<^verbatim>\<open>None\<close> document raises.\<close>

fun tokenize_all :: "string option list \<Rightarrow> error + string list list" where
  "tokenize_all [] = Inr []"
| "tokenize_all (None # ds) = Inl AttributeError"
| "tokenize_all (Some d # ds) =
     (case tokenize_all ds of Inl e \<Rightarrow> Inl e | Inr ts \<Rightarrow> Inr (split (lower d) # ts))"

text \<open>
  \<^verbatim>\<open>_rebuild_bm25_index\<close>. The new state is returned also when the call raises: the
  three dictionaries are assigned before the documents are tokenized.
\<close>

definition rebuild_bm25_index ::
  "env \<Rightarrow> collection \<Rightarrow> hybrid_retriever \<Rightarrow> hybrid_retriever \<times> (error + unit)" where
  "rebuild_bm25_index E c r =
     (case coll_get_all c of
        Inl e \<Rightarrow> (r, Inl e)
      | Inr (ids, documents, metadatas) \<Rightarrow>
          if ids = [] \<or> documents = []
          then (r\<lparr>bm25_index := None, doc_ids := [], id_to_doc := [], id_to_metadata := []\<rparr>, Inr ())
          else
            let r1 = r\<lparr>doc_ids := ids,
                       id_to_doc := dict_of (zip ids documents),
                       id_to_metadata := dict_of (zip ids metadatas)\<rparr>
            in (case tokenize_all documents of
                  Inl e \<Rightarrow> (r1, Inl e)
                | Inr tokenized \<Rightarrow>
                    (case BM25Okapi E tokenized of
                       Inl e \<Rightarrow> (r1, Inl e)
                     | Inr index \<Rightarrow> (r1\<lparr>bm25_index := Some index\<rparr>, Inr ()))))"

definition refresh_index ::
  "env \<Rightarrow> collection \<Rightarrow> hybrid_retriever \<Rightarrow> hybrid_retriever \<times> (error + unit)" where
  "refresh_index E c r = rebuild_bm25_index E c r"

definition ensure_index ::
  "env \<Rightarrow> collection \<Rightarrow> hybrid_retriever \<Rightarrow> hybrid_retriever \<times> (error + unit)" where
  "ensure_index E c r = (if bm25_index r = None then rebuild_bm25_index E c r else (r, Inr ()))"

text \<open>A result dict of \<^verbatim>\<open>retrieve\<close>: id, score, metadata, text.\<close>

record result =
  res_id :: string
  res_score :: real
  res_metadata :: metadata
  res_text :: string

text \<open>A per-source result dict: identifier to (rank, raw score).\<close>

type_synonym ranked = "(string \<times> nat \<times> real) list"

text \<open>
  Step 1, the loop over \<^verbatim>\<open>enumerate(bm25_top_indices)\<close>: the identifier is read
  first (an index beyond \<open>doc_ids\<close> raises), a score that is not positive is skipped, a
  document whose snapshot metadata names another conversation is skipped, and the rest is
  stored with its position in the global order plus one.
\<close>

fun bm25_loop ::
  "hybrid_retriever \<Rightarrow> real list \<Rightarrow> string \<Rightarrow> (nat \<times> nat) list \<Rightarrow> ranked \<Rightarrow> error + ranked" where
  "bm25_loop r bm25_scores conversation_id [] bm25_results = Inr bm25_results"
| "bm25_loop r bm25_scores conversation_id ((rank, idx) # rest) bm25_results =
     (if length (doc_ids r) \<le> idx then Inl IndexError
      else
        let doc_id = doc_ids r ! idx; score = bm25_scores ! idx in
        if score \<le> 0 then bm25_loop r bm25_scores conversation_id rest bm25_results
        else
          (case map_of (id_to_metadata r) doc_id of
             None \<Rightarrow> bm25_loop r bm25_scores conversation_id rest bm25_results
           | Some None \<Rightarrow> Inl AttributeError
           | Some (Some meta) \<Rightarrow>
               if map_of meta ''conversation_id'' \<noteq> Some (PyStr conversation_id)
               then bm25_loop r bm25_scores conversation_id rest bm25_results
               else bm25_loop r bm25_scores conversation_id rest
                      (AList.update doc_id (rank + 1, score) bm25_results)))"

definition bm25_top_indices :: "real list \<Rightarrow> nat \<Rightarrow> nat list" where
  "bm25_top_indices bm25_scores top_k = take (top_k * 2) (rev (argsort bm25_scores))"

definition bm25_retrieval ::
  "hybrid_retriever \<Rightarrow> real list \<Rightarrow> string \<Rightarrow> nat \<Rightarrow> error + ranked" where
  "bm25_retrieval r bm25_scores conversation_id top_k =
     bm25_loop r bm25_scores conversation_id
       (enumerate 0 (bm25_top_indices bm25_scores top_k)) []"

text \<open>
  Step 2, the dict built from the dense answer: rank is the position plus one, the
  stored value is \<open>1 - distance\<close>.
\<close>

definition dense_result_dict :: "string list \<times> real list \<Rightarrow> ranked" where
  "dense_result_dict dense =
     (case dense of (ids, distances) \<Rightarrow>
        if ids = [] then []
        else foldl (\<lambda>d (rank, (doc_id, dist)). AList.update doc_id (rank + 1, 1 - dist) d) []
               (enumerate 0 (zip ids distances)))"

text \<open>Step 3, reciprocal rank fusion.\<close>

definition k_const :: real where
  "k_const = 60"

definition rrf_score :: "real \<Rightarrow> real \<Rightarrow> ranked \<Rightarrow> ranked \<Rightarrow> string \<Rightarrow> real" where
  "rrf_score bm25_weight dense_weight bm25_results dense_results doc_id =
     (let score0 = 0;
          score1 = (case map_of bm25_results doc_id of
                      None \<Rightarrow> score0
                    | Some (rank, _) \<Rightarrow> score0 + bm25_weight / (k_const + real rank));
          score2 = (case map_of dense_results doc_id of
                      None \<Rightarrow> score1
                    | Some (rank, _) \<Rightarrow> score1 + dense_weight / (k_const + real rank))
      in score2)"

text \<open>
  \<open>combined_scores\<close> is filled while iterating the set of all identifiers, so its keys
  are in the iteration order of that set.
\<close>

definition combined_scores :: "env \<Rightarrow> real \<Rightarrow> real \<Rightarrow> ranked \<Rightarrow> ranked \<Rightarrow> (string \<times> real) list" where
  "combined_scores E bm25_weight dense_weight bm25_results dense_results =
     map (\<lambda>doc_id. (doc_id, rrf_score bm25_weight dense_weight bm25_results dense_results doc_id))
       (set_iter E (map fst bm25_results @ map fst dense_results))"

text \<open>
  \<^verbatim>\<open>sorted(keys, key=score, reverse=True)[:top_k]\<close>: a stable sort, descending. The
  model sorts the (identifier, score) items, which keeps each identifier with the score
  that \<^verbatim>\<open>combined_scores[doc_id]\<close> reads later.
\<close>

definition sorted_items :: "(string \<times> real) list \<Rightarrow> nat \<Rightarrow> (string \<times> real) list" where
  "sorted_items combined top_k = take top_k (sort_key (\<lambda>item. - snd item) combined)"

text \<open>Step 4, the map from the fetched identifiers to (\<^verbatim>\<open>meta or {}\<close>, \<^verbatim>\<open>doc or ""\<close>).\<close>

definition doc_map :: "get_result \<Rightarrow> (string \<times> metadata \<times> string) list" where
  "doc_map full =
     (case full of (fetched_ids, fetched_docs, fetched_metas) \<Rightarrow>
        foldl (\<lambda>d (doc_id, meta, doc).
                 AList.update doc_id (case meta of None \<Rightarrow> [] | Some m \<Rightarrow> m,
                                      case doc of None \<Rightarrow> [] | Some t \<Rightarrow> t) d) []
          (zip fetched_ids (zip fetched_metas fetched_docs)))"

definition make_results :: "(string \<times> metadata \<times> string) list \<Rightarrow> (string \<times> real) list \<Rightarrow> result list" where
  "make_results dm items =
     map (\<lambda>(doc_id, score).
            (case map_of dm doc_id of
               None \<Rightarrow> \<lparr>res_id = doc_id, res_score = score, res_metadata = [], res_text = []\<rparr>
             | Some (meta, doc) \<Rightarrow>
                 \<lparr>res_id = doc_id, res_score = score, res_metadata = meta, res_text = doc\<rparr>))
       items"

text \<open>The body of \<^verbatim>\<open>retrieve\<close> after the index is known to be non-empty.\<close>

definition retrieve_indexed ::
  "env \<Rightarrow> collection \<Rightarrow> hybrid_retriever \<Rightarrow> (string list \<Rightarrow> real list) \<Rightarrow> string \<Rightarrow> string \<Rightarrow> nat
     \<Rightarrow> real \<Rightarrow> real \<Rightarrow> error + result list" where
  "retrieve_indexed E c r get_scores query conversation_id top_k bm25_weight dense_weight =
     (let query_tokens = split (lower query);
          bm25_scores = get_scores query_tokens
      in case bm25_retrieval r bm25_scores conversation_id top_k of
           Inl e \<Rightarrow> Inl e
         | Inr bm25_results \<Rightarrow>
             (case coll_query c query (top_k * 2) conversation_id of
                Inl e \<Rightarrow> Inl e
              | Inr dense \<Rightarrow>
                  let dense_results = dense_result_dict dense;
                      combined = combined_scores E bm25_weight dense_weight bm25_results dense_results
                  in if combined = [] then Inr []
                     else
                       let items = sorted_items combined top_k in
                       (case coll_get c (map fst items) of
                          Inl e \<Rightarrow> Inl e
                        | Inr full \<Rightarrow> Inr (make_results (doc_map full) items))))"

text \<open>\<^verbatim>\<open>HybridRetriever.retrieve\<close>, with the state the call leaves behind.\<close>

definition retrieve ::
  "env \<Rightarrow> collection \<Rightarrow> hybrid_retriever \<Rightarrow> string \<Rightarrow> string \<Rightarrow> nat \<Rightarrow> real \<Rightarrow> real
     \<Rightarrow> hybrid_retriever \<times> (error + result list)" where
  "retrieve E c r0 query conversation_id top_k bm25_weight dense_weight =
     (case ensure_index E c r0 of
        (r, Inl e) \<Rightarrow> (r, Inl e)
      | (r, Inr _) \<Rightarrow>
          (case bm25_index r of
             None \<Rightarrow> (r, Inr [])
           | Some get_scores \<Rightarrow>
               if doc_ids r = [] then (r, Inr [])
               else (r, retrieve_indexed E c r get_scores query conversation_id top_k
                          bm25_weight dense_weight)))"

section \<open>CouncilRAG\<close>

text \<open>
  The object state of \<^verbatim>\<open>CouncilRAG\<close>: after a failed initialisation \<open>enabled\<close> is
  false and the retriever is \<^verbatim>\<open>None\<close>. Field \<open>retriever\<close> is the attribute
  \<^verbatim>\<open>hybrid_retriever\<close>.
\<close>

record council_rag =
  enabled :: bool
  retriever :: "hybrid_retriever option"

definition RAG_MAX_TOKENS :: nat where
  "RAG_MAX_TOKENS = 3000"

definition threshold :: real where
  "threshold = 0.01"

subsection \<open>index_session\<close>

definition format_text :: "string \<Rightarrow> string \<Rightarrow> string" where
  "format_text user_question text =
     ''Q: '' @ user_question @ [CHR 0x0A, CHR 0x0A] @ ''A: '' @ text"

type_synonym quality_metrics = "(string \<times> (string \<times> real) list) list"

definition quality_of :: "quality_metrics \<Rightarrow> string \<Rightarrow> (string \<times> real) list" where
  "quality_of qm model = (case map_of qm model of None \<Rightarrow> [] | Some q \<Rightarrow> q)"

definition get_default :: "('k \<times> 'v) list \<Rightarrow> 'k \<Rightarrow> 'v \<Rightarrow> 'v" where
  "get_default d k dflt = (case map_of d k of None \<Rightarrow> dflt | Some v \<Rightarrow> v)"

definition make_metadata ::
  "string \<Rightarrow> int \<Rightarrow> string \<Rightarrow> string \<Rightarrow> string \<Rightarrow> (string \<times> real) list \<Rightarrow> string \<Rightarrow> metadata" where
  "make_metadata conversation_id turn_index stage model topics_str quality timestamp =
     [(''conversation_id'', PyStr conversation_id),
      (''turn_index'', PyInt turn_index),
      (''stage'', PyStr stage),
      (''model'', PyStr model),
      (''topics'', PyStr topics_str),
      (''avg_rank'', PyFloat (get_default quality ''avg_rank'' 999)),
      (''consensus_score'', PyFloat (get_default quality ''consensus_score'' 0)),
      (''timestamp'', PyStr timestamp)]"

definition opinion_id :: "string \<Rightarrow> int \<Rightarrow> nat \<Rightarrow> string \<Rightarrow> string" where
  "opinion_id conversation_id turn_index idx model =
     conversation_id @ '':turn:'' @ str_int turn_index @ '':opinion:'' @ str_nat idx @ '':'' @ model"

definition synthesis_id :: "string \<Rightarrow> int \<Rightarrow> string \<Rightarrow> string" where
  "synthesis_id conversation_id turn_index stage3_model =
     conversation_id @ '':turn:'' @ str_int turn_index @ '':synthesis:'' @ stage3_model"

text \<open>
  Stage 1, the loop over \<^verbatim>\<open>enumerate(stage1_results)\<close>. The three lists the source
  appends to in step are one list of (id, document, metadata) here.
\<close>

fun opinion_docs ::
  "string \<Rightarrow> int \<Rightarrow> string \<Rightarrow> string \<Rightarrow> quality_metrics \<Rightarrow> string
     \<Rightarrow> (nat \<times> (string \<times> string) list) list \<Rightarrow> error + (string \<times> string \<times> metadata) list" where
  "opinion_docs conversation_id turn_index user_question topics_str qm timestamp [] = Inr []"
| "opinion_docs conversation_id turn_index user_question topics_str qm timestamp ((idx, res) # rest) =
     (case getitem res ''model'' of
        Inl e \<Rightarrow> Inl e
      | Inr model \<Rightarrow>
          (case getitem res ''response'' of
             Inl e \<Rightarrow> Inl e
           | Inr text \<Rightarrow>
               (case opinion_docs conversation_id turn_index user_question topics_str qm timestamp rest of
                  Inl e \<Rightarrow> Inl e
                | Inr docs \<Rightarrow>
                    Inr ((opinion_id conversation_id turn_index idx model,
                          format_text user_question text,
                          make_metadata conversation_id turn_index ''opinion'' model topics_str
                            (quality_of qm model) timestamp) # docs))))"

definition synthesis_docs ::
  "string \<Rightarrow> int \<Rightarrow> string \<Rightarrow> string \<Rightarrow> quality_metrics \<Rightarrow> string
     \<Rightarrow> (string \<times> string) list \<Rightarrow> (string \<times> string \<times> metadata) list" where
  "synthesis_docs conversation_id turn_index user_question topics_str qm timestamp stage3_result =
     (let stage3_model = get_default stage3_result ''model'' ''unknown'';
          final_text = get_default stage3_result ''response'' [];
          stage3_quality = quality_of qm stage3_model
      in if final_text \<noteq> []
         then [(synthesis_id conversation_id turn_index stage3_model,
                format_text user_question final_text,
                make_metadata conversation_id turn_index ''synthesis'' stage3_model topics_str
                  stage3_quality timestamp)]
         else [])"

text \<open>
  \<^verbatim>\<open>index_session\<close>. \<open>timestamp\<close> is what \<^verbatim>\<open>datetime.utcnow().isoformat()\<close>
  returns during the call. \<^verbatim>\<open>stage2_results\<close> is not read. The result is the
  collection after the call.
\<close>

definition index_session ::
  "env \<Rightarrow> council_rag \<Rightarrow> collection \<Rightarrow> string \<Rightarrow> string \<Rightarrow> int \<Rightarrow> string
     \<Rightarrow> (string \<times> string) list list \<Rightarrow> (string \<times> string) list \<Rightarrow> string list \<Rightarrow> quality_metrics
     \<Rightarrow> error + collection" where
  "index_session E rag c timestamp conversation_id turn_index user_question stage1_results
       stage3_result topics quality_metrics =
     (if \<not> enabled rag then Inr c
      else
        let topics_str = json_dumps E topics in
        case opinion_docs conversation_id turn_index user_question topics_str quality_metrics
               timestamp (enumerate 0 stage1_results) of
          Inl e \<Rightarrow> Inl e
        | Inr opinions \<Rightarrow>
            let docs = opinions @ synthesis_docs conversation_id turn_index user_question topics_str
                                    quality_metrics timestamp stage3_result
            in if docs \<noteq> []
               then Inr (coll_upsert c (map fst docs) (map (fst \<circ> snd) docs) (map (snd \<circ> snd) docs))
               else Inr c)"

subsection \<open>retrieve\<close>

record chunk =
  chunk_id :: string
  chunk_similarity :: real
  chunk_metadata :: metadata
  chunk_text :: string

definition to_chunk :: "result \<Rightarrow> chunk" where
  "to_chunk res = \<lparr>chunk_id = res_id res, chunk_similarity = res_score res,
                   chunk_metadata = res_metadata res, chunk_text = res_text res\<rparr>"

text \<open>The first loop: a result whose score is below the threshold is skipped.\<close>

definition filtered_chunks :: "result list \<Rightarrow> chunk list" where
  "filtered_chunks results = map to_chunk (filter (\<lambda>res. \<not> res_score res < threshold) results)"

text \<open>
  \<^verbatim>\<open>int(len(text.split()) * 1.3)\<close>. The exact product has a fractional part of
  one of .0, .1, ..., .9, so the rounding of the floating-point product does not change
  its integer part for any text that fits in memory.
\<close>

definition est_tokens :: "string \<Rightarrow> nat" where
  "est_tokens text = nat \<lfloor>real (length (split text)) * 1.3\<rfloor>"

text \<open>\<^verbatim>\<open>_format_chunk\<close>: the three metadata reads raise on a missing key.\<close>

definition format_chunk :: "env \<Rightarrow> chunk \<Rightarrow> error + string" where
  "format_chunk E ch =
     (let meta = chunk_metadata ch in
      case getitem meta ''turn_index'' of
        Inl e \<Rightarrow> Inl e
      | Inr turn_index \<Rightarrow>
          (case getitem meta ''stage'' of
             Inl e \<Rightarrow> Inl e
           | Inr stage \<Rightarrow>
               (case getitem meta ''model'' of
                  Inl e \<Rightarrow> Inl e
                | Inr model \<Rightarrow>
                    Inr (''[Turn '' @ str_val E turn_index @ '' | Stage '' @ str_val E stage
                         @ '' | Model: '' @ str_val E model @ '']'' @ [CHR 0x0A] @ chunk_text ch))))"

text \<open>
  The second loop: \<open>used_tokens\<close> is the running sum; the first chunk that would pass
  the budget ends the loop.
\<close>

fun build_context :: "env \<Rightarrow> nat \<Rightarrow> chunk list \<Rightarrow> error + string list" where
  "build_context E used_tokens [] = Inr []"
| "build_context E used_tokens (ch # rest) =
     (let est = est_tokens (chunk_text ch) in
      if used_tokens + est > RAG_MAX_TOKENS then Inr []
      else
        (case format_chunk E ch of
           Inl e \<Rightarrow> Inl e
         | Inr part \<Rightarrow>
             (case build_context E (used_tokens + est) rest of
                Inl e \<Rightarrow> Inl e
              | Inr parts \<Rightarrow> Inr (part # parts))))"

text \<open>The body of the \<^verbatim>\<open>try\<close> block, with the retriever state it leaves behind.\<close>

definition retrieve_try ::
  "env \<Rightarrow> collection \<Rightarrow> council_rag \<Rightarrow> string \<Rightarrow> string \<Rightarrow> council_rag \<times> (error + string)" where
  "retrieve_try E c rag query conversation_id =
     (case retriever rag of
        None \<Rightarrow> (rag, Inl AttributeError)
      | Some r0 \<Rightarrow>
          (case retrieve E c r0 query conversation_id 10 0.5 0.5 of
             (r, Inl e) \<Rightarrow> (rag\<lparr>retriever := Some r\<rparr>, Inl e)
           | (r, Inr results) \<Rightarrow>
               (rag\<lparr>retriever := Some r\<rparr>,
                case build_context E 0 (filtered_chunks results) of
                  Inl e \<Rightarrow> Inl e
                | Inr formatted_parts \<Rightarrow> Inr (join [CHR 0x0A, CHR 0x0A] formatted_parts))))"

text \<open>
  \<^verbatim>\<open>CouncilRAG.retrieve\<close>. The result is a sum so that a propagated exception would
  be visible as \<open>Inl\<close>.
\<close>

definition council_retrieve ::
  "env \<Rightarrow> collection \<Rightarrow> council_rag \<Rightarrow> string \<Rightarrow> string \<Rightarrow> council_rag \<times> (error + string)" where
  "council_retrieve E c rag query conversation_id =
     (if \<not> enabled rag then (rag, Inr [])
      else
        (case retrieve_try E c rag query conversation_id of
           (rag', Inl e) \<Rightarrow> (rag', Inr [])
         | (rag', Inr context) \<Rightarrow> (rag', Inr context)))"

definition refresh_hybrid_index :: "env \<Rightarrow> collection \<Rightarrow> council_rag \<Rightarrow> council_rag \<times> (error + unit)" where
  "refresh_hybrid_index E c rag =
     (if enabled rag then
        (case retriever rag of
           None \<Rightarrow> (rag, Inr ())
         | Some r \<Rightarrow> (case refresh_index E c r of (r', res) \<Rightarrow> (rag\<lparr>retriever := Some r'\<rparr>, res)))
      else (rag, Inr ()))"

section \<open>Example states\<close>

text \<open>
  A toy scoring library (the score of a document is the number of its tokens that occur
  in the query), two hash functions, and small collections, used to run the model.
\<close>

definition overlap_scores :: "string list list \<Rightarrow> string list \<Rightarrow> real list" where
  "overlap_scores corpus query_tokens =
     map (\<lambda>doc. real (length (filter (\<lambda>t. t \<in> set query_tokens) doc))) corpus"

definition E0 :: env where
  "E0 = \<lparr>BM25Okapi = (\<lambda>corpus. Inr (overlap_scores corpus)), json_dumps = concat,
          str_float = (\<lambda>x. ''0.0''), str_hash = length\<rparr>"

definition E1 :: env where
  "E1 = \<lparr>BM25Okapi = (\<lambda>corpus. Inr (overlap_scores corpus)), json_dumps = concat,
          str_float = (\<lambda>x. ''0.0''), str_hash = (\<lambda>s. 100 - length s)\<rparr>"

definition ex_meta :: "string \<Rightarrow> string \<Rightarrow> metadata" where
  "ex_meta conversation_id model = make_metadata conversation_id 0 ''opinion'' model ''[]'' [] ''t0''"

definition ex_store :: collection where
  "ex_store = \<lparr>entries = [(''a'', Some ''capital france paris'', Some (ex_meta ''c1'' ''m1'')),
                           (''bb'', Some ''capital city'', Some (ex_meta ''c1'' ''m2'')),
                           (''z'', Some ''weather berlin'', Some (ex_meta ''c2'' ''m1''))],
               distance = (\<lambda>q i. if i = ''bb'' then 0.1 else 0.2),
               get_fails = False, query_fails = False\<rparr>"

definition ex_down :: collection where
  "ex_down = ex_store\<lparr>query_fails := True\<rparr>"

definition ex_empty :: collection where
  "ex_empty = ex_store\<lparr>entries := []\<rparr>"

definition ex_rag :: council_rag where
  "ex_rag = \<lparr>enabled = True, retriever = Some new_retriever\<rparr>"

definition ex_disabled :: council_rag where
  "ex_disabled = \<lparr>enabled = False, retriever = None\<rparr>"

text \<open>The estimated tokens of a list of chunks.\<close>

definition tokens_of :: "chunk list \<Rightarrow> nat" where
  "tokens_of chs = sum_list (map (\<lambda>ch. est_tokens (chunk_text ch)) chs)"

text \<open>
  The token cost as the claim on the budget words it: the word count times 1.3, not
  truncated.
\<close>

definition claimed_cost :: "chunk \<Rightarrow> real" where
  "claimed_cost ch = real (length (split (chunk_text ch))) * 1.3"

text \<open>Chunks of 231 words each, as ten or eleven results of one retrieval.\<close>

definition ex_text231 :: string where
  "ex_text231 = concat (replicate 231 ''w '')"

definition ex_chunk231 :: "nat \<Rightarrow> chunk" where
  "ex_chunk231 i = \<lparr>chunk_id = ''d'' @ str_nat i, chunk_similarity = 1 / (61 + real i),
                    chunk_metadata = ex_meta ''c1'' ''m1'', chunk_text = ex_text231\<rparr>"

definition ex_block231 :: string where
  "ex_block231 = ''[Turn 0 | Stage opinion | Model: m1]'' @ [CHR 0x0A] @ ex_text231"

definition ex_chunks10 :: "chunk list" where
  "ex_chunks10 = map ex_chunk231 [0..<10]"

definition ex_chunks11 :: "chunk list" where
  "ex_chunks11 = map ex_chunk231 [0..<11]"

section \<open>Ranks and fused score as the specification words them\<close>

text \<open>
  The rank of \<open>x\<close> in a ranked list whose first entry has rank \<open>n + 1\<close>; \<open>None\<close> when \<open>x\<close>
  is absent. Should \<open>x\<close> occur more than once, its last occurrence counts.
\<close>

fun rank_from :: "nat \<Rightarrow> 'a list \<Rightarrow> 'a \<Rightarrow> nat option" where
  "rank_from n [] x = None"
| "rank_from n (y # ys) x =
     (case rank_from (Suc n) ys x of
        Some k \<Rightarrow> Some k
      | None \<Rightarrow> if y = x then Some (Suc n) else None)"

definition rank_in :: "'a list \<Rightarrow> 'a \<Rightarrow> nat option" where
  "rank_in xs x = rank_from 0 xs x"

text \<open>One term of the fused score: \<open>w / (K + rank)\<close> with \<open>K = 60\<close>, or 0 for an absent id.\<close>

definition rank_term :: "real \<Rightarrow> nat option \<Rightarrow> real" where
  "rank_term w rk = (case rk of None \<Rightarrow> 0 | Some k \<Rightarrow> w / (60 + real k))"

text \<open>The conversation id that the snapshot of the retriever records for an identifier.\<close>

definition snapshot_conv :: "hybrid_retriever \<Rightarrow> string \<Rightarrow> pyval option" where
  "snapshot_conv r doc_id =
     (case map_of (id_to_metadata r) doc_id of
        Some (Some meta) \<Rightarrow> map_of meta ''conversation_id''
      | _ \<Rightarrow> None)"

text \<open>
  The lexical source list: one entry for each position of the global BM25 order, cut to
  \<open>2 * top_k\<close> positions. A position holds the identifier ranked there when its score is
  positive and the snapshot files it under the requested conversation, and nothing
  otherwise; the position of an identifier is its lexical rank.
\<close>

definition lexical_entry :: "hybrid_retriever \<Rightarrow> real list \<Rightarrow> string \<Rightarrow> nat \<Rightarrow> string option" where
  "lexical_entry r bm25_scores conversation_id idx =
     (if 0 < bm25_scores ! idx \<and> snapshot_conv r (doc_ids r ! idx) = Some (PyStr conversation_id)
      then Some (doc_ids r ! idx) else None)"

definition lexical_list :: "hybrid_retriever \<Rightarrow> real list \<Rightarrow> string \<Rightarrow> nat \<Rightarrow> string option list" where
  "lexical_list r bm25_scores conversation_id top_k =
     map (lexical_entry r bm25_scores conversation_id) (bm25_top_indices bm25_scores top_k)"

definition spec_fused :: "real \<Rightarrow> real \<Rightarrow> string option list \<Rightarrow> string list \<Rightarrow> string \<Rightarrow> real" where
  "spec_fused wLex wDense lex_list dense_list doc_id =
     rank_term wLex (rank_in lex_list (Some doc_id)) + rank_term wDense (rank_in dense_list doc_id)"

text \<open>
  The fused score as the claim on the formula words it: both ranks are positions in the
  source lists that enter fusion, the best entry of each list having rank 1.
\<close>

definition claimed_fused :: "real \<Rightarrow> real \<Rightarrow> string list \<Rightarrow> string list \<Rightarrow> string \<Rightarrow> real" where
  "claimed_fused wLex wDense lex_list dense_list doc_id =
     rank_term wLex (rank_in lex_list doc_id) + rank_term wDense (rank_in dense_list doc_id)"

text \<open>
  A collection in which a document of conversation \<open>c2\<close> has the best BM25 score for
  the query \<open>capital\<close>, ahead of the best document of conversation \<open>c1\<close>; with its
  tokenized corpus and the snapshot a rebuild leaves.
\<close>

definition ex_store_z :: collection where
  "ex_store_z = \<lparr>entries = [(''a'', Some ''paris capital'', Some (ex_meta ''c1'' ''m1'')),
                             (''z'', Some ''capital capital'', Some (ex_meta ''c2'' ''m1'')),
                             (''bb'', Some ''city lights'', Some (ex_meta ''c1'' ''m2'')),
                             (''y'', Some ''weather berlin'', Some (ex_meta ''c2'' ''m2'')),
                             (''w'', Some ''rain today'', Some (ex_meta ''c2'' ''m3''))],
                 distance = (\<lambda>q i. if i = ''a'' then 0.1 else 0.2),
                 get_fails = False, query_fails = False\<rparr>"

definition ex_corpus_z :: "string list list" where
  "ex_corpus_z = [[''paris'', ''capital''], [''capital'', ''capital''], [''city'', ''lights''],
                  [''weather'', ''berlin''], [''rain'', ''today'']]"

definition ex_snapshot_z :: hybrid_retriever where
  "ex_snapshot_z = \<lparr>bm25_index = Some (overlap_scores ex_corpus_z),
                     doc_ids = [''a'', ''z'', ''bb'', ''y'', ''w''],
                     id_to_doc = [(''a'', Some ''paris capital''), (''z'', Some ''capital capital''),
                                  (''bb'', Some ''city lights''), (''y'', Some ''weather berlin''),
                                  (''w'', Some ''rain today'')],
                     id_to_metadata = [(''a'', Some (ex_meta ''c1'' ''m1'')), (''z'', Some (ex_meta ''c2'' ''m1'')),
                                       (''bb'', Some (ex_meta ''c1'' ''m2'')), (''y'', Some (ex_meta ''c2'' ''m2'')),
                                       (''w'', Some (ex_meta ''c2'' ''m3''))]\<rparr>"

definition ex_results_z :: "result list" where
  "ex_results_z = [\<lparr>res_id = ''a'', res_score = 0.5 / 62 + 0.5 / 61, res_metadata = ex_meta ''c1'' ''m1'',
                     res_text = ''paris capital''\<rparr>,
                   \<lparr>res_id = ''bb'', res_score = 0.5 / 62, res_metadata = ex_meta ''c1'' ''m2'',
                     res_text = ''city lights''\<rparr>]"

section \<open>Conversation of a stored and of a returned document\<close>

text \<open>The conversation id the collection holds for an identifier.\<close>

definition store_conv :: "collection \<Rightarrow> string \<Rightarrow> pyval option" where
  "store_conv c doc_id =
     (case map_of (entries c) doc_id of
        None \<Rightarrow> None
      | Some (doc, meta) \<Rightarrow> (case meta of None \<Rightarrow> None | Some m \<Rightarrow> map_of m ''conversation_id''))"

text \<open>The conversation id in the metadata of a returned result.\<close>

definition res_conv :: "result \<Rightarrow> pyval option" where
  "res_conv res = map_of (res_metadata res) ''conversation_id''"

text \<open>
  The snapshot agrees with the collection: for every identifier of the snapshot that the
  collection still holds, both record the same conversation id.
\<close>

definition snapshot_agrees :: "hybrid_retriever \<Rightarrow> collection \<Rightarrow> bool" where
  "snapshot_agrees r c =
     list_all (\<lambda>doc_id. map_of (entries c) doc_id = None \<or> store_conv c doc_id = snapshot_conv r doc_id)
       (map fst (id_to_metadata r))"






text \<open>\<open>ex_store\<close> with the metadata of \<open>bb\<close> lacking its turn index.\<close>

definition ex_store_bad :: collection where
  "ex_store_bad = ex_store\<lparr>entries :=
       [(''a'', Some ''capital france paris'', Some (ex_meta ''c1'' ''m1'')),
        (''bb'', Some ''capital city'',
           Some [(''conversation_id'', PyStr ''c1''), (''stage'', PyStr ''opinion''),
                 (''model'', PyStr ''m2'')]),
        (''z'', Some ''weather berlin'', Some (ex_meta ''c2'' ''m1''))]\<rparr>"

definition ex_chunk_bad :: chunk where
  "ex_chunk_bad = \<lparr>chunk_id = ''bb'', chunk_similarity = 123 / 7564,
                    chunk_metadata = [(''conversation_id'', PyStr ''c1''), (''stage'', PyStr ''opinion''),
                                      (''model'', PyStr ''m2'')],
                    chunk_text = ''capital city''\<rparr>"

section \<open>Re-indexing a turn\<close>

text \<open>The entries after a batch of documents is upserted, one by one.\<close>

definition upsert_entries :: "entry list \<Rightarrow> (string \<times> string \<times> metadata) list \<Rightarrow> entry list" where
  "upsert_entries es docs = foldl (\<lambda>es (i, d, m). AList.update i (Some d, Some m) es) es docs"

text \<open>An entry without the timestamp of its metadata.\<close>

definition strip_timestamp :: "entry \<Rightarrow> entry" where
  "strip_timestamp e =
     (fst e, fst (snd e), map_option (filter (\<lambda>kv. fst kv \<noteq> ''timestamp'')) (snd (snd e)))"

text \<open>The entries of \<open>ex_store\<close> after one turn of conversation \<open>c3\<close> is indexed at a given time.\<close>

definition ex_entries :: "string \<Rightarrow> entry list" where
  "ex_entries timestamp = entries ex_store @
     [(''c3:turn:0:opinion:0:m1'', Some (format_text ''which capital'' ''paris''),
       Some (make_metadata ''c3'' 0 ''opinion'' ''m1'' [] [] timestamp)),
      (''c3:turn:0:synthesis:chair'', Some (format_text ''which capital'' ''it is paris''),
       Some (make_metadata ''c3'' 0 ''synthesis'' ''chair'' [] [] timestamp))]"

section \<open>Structure of a retrieval\<close>

lemma retrieve_cases:
  assumes "retrieve E c r0 query cid top_k bw dw = (r, Inr results)"
  shows "results = [] \<or> (\<exists>gs. bm25_index r = Some gs \<and> doc_ids r \<noteq> [] \<and>
           retrieve_indexed E c r gs query cid top_k bw dw = Inr results)"
  using assms
  by (auto simp: retrieve_def split: prod.splits sum.splits option.splits if_splits)

lemma retrieve_indexed_shape:
  assumes "retrieve_indexed E c r gs query cid top_k bw dw = Inr results"
  shows "\<exists>bm dense dm. bm25_retrieval r (gs (split (lower query))) cid top_k = Inr bm
           \<and> coll_query c query (top_k * 2) cid = Inr dense
           \<and> results = make_results dm
                 (sorted_items (combined_scores E bw dw bm (dense_result_dict dense)) top_k)"
  using assms
  by (auto simp: retrieve_indexed_def Let_def sorted_items_def make_results_def
           split: sum.splits if_splits)

lemma make_results_items:
  "map (\<lambda>res. (res_id res, res_score res)) (make_results dm items) = items"
  by (induction items) (auto simp: make_results_def split: option.splits)

lemma sorted_items_desc:
  "sorted_wrt (\<lambda>a b. snd a \<ge> snd b) (sorted_items combined top_k)"
proof -
  have "sorted (map (\<lambda>item. - snd item) (sort_key (\<lambda>item. - snd item) combined))"
    by (rule sorted_sort_key)
  then have "sorted_wrt (\<lambda>a b. snd a \<ge> snd b) (sort_key (\<lambda>item. - snd item) combined)"
    by (simp add: sorted_map sorted_wrt_iff_nth_less)
  then show ?thesis
    unfolding sorted_items_def by (rule sorted_wrt_take)
qed

lemma results_desc:
  assumes "retrieve E c r0 query cid top_k bw dw = (r, Inr results)"
  shows "sorted_wrt (\<lambda>a b. res_score a \<ge> res_score b) results"
proof -
  from retrieve_cases[OF assms] show ?thesis
  proof
    assume "results = []" then show ?thesis by simp
  next
    assume "\<exists>gs. bm25_index r = Some gs \<and> doc_ids r \<noteq> [] \<and>
           retrieve_indexed E c r gs query cid top_k bw dw = Inr results"
    then obtain gs where "retrieve_indexed E c r gs query cid top_k bw dw = Inr results" by blast
    from retrieve_indexed_shape[OF this] obtain dm items where
      res: "results = make_results dm (sorted_items items top_k)" by blast
    have "sorted_wrt (\<lambda>a b. snd a \<ge> snd b) (map (\<lambda>res. (res_id res, res_score res)) results)"
      unfolding res make_results_items by (rule sorted_items_desc)
    then show ?thesis by (simp add: sorted_wrt_map)
  qed
qed

lemma build_context_prefix:
  assumes "build_context E used chs = Inr parts"
  shows "length parts \<le> length chs
       \<and> map (format_chunk E) (take (length parts) chs) = map Inr parts
       \<and> (used \<le> RAG_MAX_TOKENS \<longrightarrow> used + tokens_of (take (length parts) chs) \<le> RAG_MAX_TOKENS)
       \<and> (length parts < length chs \<longrightarrow>
            used + tokens_of (take (Suc (length parts)) chs) > RAG_MAX_TOKENS)"
  using assms
proof (induction chs arbitrary: used parts)
  case Nil
  then show ?case by (simp add: tokens_of_def)
next
  case (Cons ch rest)
  show ?case
  proof (cases "used + est_tokens (chunk_text ch) > RAG_MAX_TOKENS")
    case True
    with Cons.prems have "parts = []" by simp
    with True show ?thesis by (simp add: tokens_of_def)
  next
    case False
    with Cons.prems obtain part ps where
      f: "format_chunk E ch = Inr part" and
      b: "build_context E (used + est_tokens (chunk_text ch)) rest = Inr ps" and
      p: "parts = part # ps"
      by (auto simp: Let_def split: sum.splits)
    from Cons.IH[OF b] False f p show ?thesis
      by (auto simp: tokens_of_def add.assoc)
  qed
qed

lemma council_shape:
  assumes "snd (council_retrieve E c rag q cid) = Inr ctx" "ctx \<noteq> []"
  shows "\<exists>r0 r results parts. enabled rag \<and> retriever rag = Some r0
          \<and> retrieve E c r0 q cid 10 0.5 0.5 = (r, Inr results)
          \<and> build_context E 0 (filtered_chunks results) = Inr parts
          \<and> ctx = join [CHR 0x0A, CHR 0x0A] parts"
  using assms
  by (auto simp: council_retrieve_def retrieve_try_def
           split: if_splits prod.splits sum.splits option.splits)

section \<open>Order of the context blocks\<close>

text \<open>
  Claim C5. Whenever \<^verbatim>\<open>CouncilRAG.retrieve\<close> returns a non-empty context, the results
  of the hybrid retriever are in descending order of fused score, and the formatted blocks
  of the context are the blocks of a prefix of the results that pass the threshold, in the
  order of the results: filtering and packing delete elements and never reorder.
\<close>

theorem context_order_preserved:
  assumes "snd (council_retrieve E c rag q cid) = Inr ctx" "ctx \<noteq> []"
  shows "\<exists>r0 r results n parts.
           retriever rag = Some r0
         \<and> retrieve E c r0 q cid 10 0.5 0.5 = (r, Inr results)
         \<and> sorted_wrt (\<lambda>a b. res_score a \<ge> res_score b) results
         \<and> map (format_chunk E)
               (take n (map to_chunk (filter (\<lambda>res. \<not> res_score res < threshold) results)))
             = map Inr parts
         \<and> sorted_wrt (\<lambda>a b. chunk_similarity a \<ge> chunk_similarity b)
               (take n (map to_chunk (filter (\<lambda>res. \<not> res_score res < threshold) results)))
         \<and> ctx = join [CHR 0x0A, CHR 0x0A] parts"
proof -
  from council_shape[OF assms] obtain r0 r results parts where
    r0: "retriever rag = Some r0" and
    ret: "retrieve E c r0 q cid 10 0.5 0.5 = (r, Inr results)" and
    bc: "build_context E 0 (filtered_chunks results) = Inr parts" and
    ctx: "ctx = join [CHR 0x0A, CHR 0x0A] parts" by blast
  let ?kept = "map to_chunk (filter (\<lambda>res. \<not> res_score res < threshold) results)"
  have srt: "sorted_wrt (\<lambda>a b. res_score a \<ge> res_score b) results"
    by (rule results_desc[OF ret])
  then have "sorted_wrt (\<lambda>a b. res_score a \<ge> res_score b)
               (filter (\<lambda>res. \<not> res_score res < threshold) results)"
    by (rule sorted_wrt_filter)
  then have "sorted_wrt (\<lambda>a b. chunk_similarity a \<ge> chunk_similarity b) ?kept"
    by (simp add: sorted_wrt_map to_chunk_def)
  then have si: "sorted_wrt (\<lambda>a b. chunk_similarity a \<ge> chunk_similarity b)
                   (take (length parts) ?kept)"
    by (rule sorted_wrt_take)
  have fm: "map (format_chunk E) (take (length parts) ?kept) = map Inr parts"
    using build_context_prefix[OF bc] by (simp add: filtered_chunks_def)
  from r0 ret srt si fm ctx show ?thesis by blast
qed

theorem context_order_preserved_witness:
  "snd (council_retrieve E0 ex_store ex_rag ''Capital France'' ''c1'')
     = Inr (join [CHR 0x0A, CHR 0x0A]
              [''[Turn 0 | Stage opinion | Model: m1]'' @ [CHR 0x0A] @ ''capital france paris'',
               ''[Turn 0 | Stage opinion | Model: m2]'' @ [CHR 0x0A] @ ''capital city''])
   \<and> (\<exists>r0 r results n parts.
           retriever ex_rag = Some r0
         \<and> retrieve E0 ex_store r0 ''Capital France'' ''c1'' 10 0.5 0.5 = (r, Inr results)
         \<and> sorted_wrt (\<lambda>a b. res_score a \<ge> res_score b) results
         \<and> map (format_chunk E0)
               (take n (map to_chunk (filter (\<lambda>res. \<not> res_score res < threshold) results)))
             = map Inr parts
         \<and> sorted_wrt (\<lambda>a b. chunk_similarity a \<ge> chunk_similarity b)
               (take n (map to_chunk (filter (\<lambda>res. \<not> res_score res < threshold) results)))
         \<and> join [CHR 0x0A, CHR 0x0A]
              [''[Turn 0 | Stage opinion | Model: m1]'' @ [CHR 0x0A] @ ''capital france paris'',
               ''[Turn 0 | Stage opinion | Model: m2]'' @ [CHR 0x0A] @ ''capital city'']
             = join [CHR 0x0A, CHR 0x0A] parts)"
proof -
  have run: "snd (council_retrieve E0 ex_store ex_rag ''Capital France'' ''c1'')
     = Inr (join [CHR 0x0A, CHR 0x0A]
              [''[Turn 0 | Stage opinion | Model: m1]'' @ [CHR 0x0A] @ ''capital france paris'',
               ''[Turn 0 | Stage opinion | Model: m2]'' @ [CHR 0x0A] @ ''capital city''])"
    by code_simp
  have ne: "join [CHR 0x0A, CHR 0x0A]
              [''[Turn 0 | Stage opinion | Model: m1]'' @ [CHR 0x0A] @ ''capital france paris'',
               ''[Turn 0 | Stage opinion | Model: m2]'' @ [CHR 0x0A] @ ''capital city''] \<noteq> []"
    by simp
  from context_order_preserved[OF run ne] run show ?thesis by blast
qed

section \<open>Errors do not leave CouncilRAG.retrieve\<close>

text \<open>
  Claim C6. \<^verbatim>\<open>CouncilRAG.retrieve\<close> always returns a string: the empty string at once
  when the engine is disabled, and the empty string whenever the body of the
  \<^verbatim>\<open>try\<close> block raises (a store failure, a missing metadata field, any other error
  of the model).
\<close>

theorem error_downgrade:
  "(\<exists>rag' s. council_retrieve E c rag query cid = (rag', Inr s))
   \<and> (\<not> enabled rag \<longrightarrow> council_retrieve E c rag query cid = (rag, Inr []))
   \<and> (enabled rag \<longrightarrow> (\<forall>e. snd (retrieve_try E c rag query cid) = Inl e \<longrightarrow>
          snd (council_retrieve E c rag query cid) = Inr []))"
  by (auto simp: council_retrieve_def split: prod.splits sum.splits)

theorem error_downgrade_witness:
  "\<not> enabled ex_disabled
   \<and> council_retrieve E0 ex_store ex_disabled ''Capital France'' ''c1'' = (ex_disabled, Inr [])
   \<and> enabled ex_rag
   \<and> snd (retrieve_try E0 ex_down ex_rag ''Capital France'' ''c1'') = Inl StoreError
   \<and> snd (council_retrieve E0 ex_down ex_rag ''Capital France'' ''c1'') = Inr []"
proof -
  have d: "\<not> enabled ex_disabled" by (simp add: ex_disabled_def)
  have e: "enabled ex_rag" by (simp add: ex_rag_def)
  have f: "snd (retrieve_try E0 ex_down ex_rag ''Capital France'' ''c1'') = Inl StoreError"
    by code_simp
  from error_downgrade[of E0 ex_store ex_disabled "''Capital France''" "''c1''"] d
  have 1: "council_retrieve E0 ex_store ex_disabled ''Capital France'' ''c1'' = (ex_disabled, Inr [])"
    by blast
  from error_downgrade[of E0 ex_down ex_rag "''Capital France''" "''c1''"] e f
  have 2: "snd (council_retrieve E0 ex_down ex_rag ''Capital France'' ''c1'') = Inr []"
    by blast
  from d e f 1 2 show ?thesis by blast
qed

section \<open>An empty collection\<close>

text \<open>
  Claim C10. When the full scan of a reachable collection is empty, rebuilding the lexical
  index does not raise and leaves the explicit empty state (no index, no identifiers);
  a retrieval against that state and that collection returns the empty list and leaves
  the state as it is, so every later retrieval does the same, and
  \<^verbatim>\<open>CouncilRAG.retrieve\<close> returns the empty string. (The empty state holds no index,
  so each such retrieval scans the collection again.)
\<close>

theorem empty_collection_safe:
  assumes "entries c = []" and "\<not> get_fails c"
  shows "rebuild_bm25_index E c r = (new_retriever, Inr ())
       \<and> retrieve E c new_retriever query cid top_k bw dw = (new_retriever, Inr [])
       \<and> council_retrieve E c \<lparr>enabled = True, retriever = Some new_retriever\<rparr> query cid
           = (\<lparr>enabled = True, retriever = Some new_retriever\<rparr>, Inr [])"
proof -
  have reb: "\<And>r. rebuild_bm25_index E c r = (new_retriever, Inr ())"
    using assms
    by (simp add: rebuild_bm25_index_def coll_get_all_def unzip_entries_def new_retriever_def)
  have ret: "\<And>k q w1 w2. retrieve E c new_retriever q cid k w1 w2 = (new_retriever, Inr [])"
    by (simp add: retrieve_def ensure_index_def reb) (simp add: new_retriever_def)
  have "council_retrieve E c \<lparr>enabled = True, retriever = Some new_retriever\<rparr> query cid
           = (\<lparr>enabled = True, retriever = Some new_retriever\<rparr>, Inr [])"
    by (simp add: council_retrieve_def retrieve_try_def ret filtered_chunks_def)
  with reb ret show ?thesis by blast
qed

theorem empty_collection_safe_witness:
  "entries ex_empty = [] \<and> \<not> get_fails ex_empty
   \<and> rebuild_bm25_index E0 ex_empty new_retriever = (new_retriever, Inr ())
   \<and> retrieve E0 ex_empty new_retriever ''Capital France'' ''c1'' 10 0.5 0.5 = (new_retriever, Inr [])
   \<and> council_retrieve E0 ex_empty \<lparr>enabled = True, retriever = Some new_retriever\<rparr>
         ''Capital France'' ''c1''
       = (\<lparr>enabled = True, retriever = Some new_retriever\<rparr>, Inr [])"
proof -
  have a: "entries ex_empty = []" by (simp add: ex_empty_def)
  have b: "\<not> get_fails ex_empty" by (simp add: ex_empty_def ex_store_def)
  from empty_collection_safe[OF a b, of E0 new_retriever "''Capital France''" "''c1''" 10 "0.5" "0.5"] a b
  show ?thesis by blast
qed

section \<open>The token budget\<close>

lemma est_tokens_div: "est_tokens text = (13 * length (split text)) div 10"
proof -
  have "real (length (split text)) * 1.3 = real (13 * length (split text)) / real 10" by simp
  then have "\<lfloor>real (length (split text)) * 1.3\<rfloor> = int ((13 * length (split text)) div 10)"
    by (simp only: floor_divide_of_nat_eq)
  then show ?thesis by (simp add: est_tokens_def)
qed

lemma split_from_repeated:
  "split_from [] (concat (replicate n ''w '')) = replicate n ''w''"
  by (induction n) (simp_all add: is_space_def)

lemma words_ex_text231: "length (split ex_text231) = 231"
  by (simp add: split_def ex_text231_def split_from_repeated)

lemma est_tokens_ex_text231: "est_tokens ex_text231 = 300"
  by (simp add: est_tokens_div words_ex_text231)

lemma text_ex_chunk231: "chunk_text (ex_chunk231 i) = ex_text231"
  by (simp add: ex_chunk231_def)

lemma format_ex_chunk231: "format_chunk E0 (ex_chunk231 i) = Inr ex_block231"
  by (simp add: format_chunk_def getitem_def ex_chunk231_def ex_meta_def make_metadata_def
        str_val_def str_int_def str_nat.simps[of 0] digit_def ex_block231_def)

lemma format_chunk_text:
  assumes "format_chunk E ch = Inr part"
  shows "\<exists>header. part = header @ [CHR 0x0A] @ chunk_text ch"
  using assms by (auto simp: format_chunk_def Let_def split: sum.splits)

lemma build_context_same:
  assumes "\<forall>ch \<in> set chs. chunk_text ch = t \<and> format_chunk E ch = Inr p"
      and "est_tokens t = k" and "0 < k" and "used \<le> RAG_MAX_TOKENS"
  shows "build_context E used chs
           = Inr (replicate (min (length chs) ((RAG_MAX_TOKENS - used) div k)) p)"
  using assms
proof (induction chs arbitrary: used)
  case Nil
  then show ?case by simp
next
  case (Cons ch rest)
  show ?case
  proof (cases "used + k > RAG_MAX_TOKENS")
    case True
    with \<open>0 < k\<close> have "RAG_MAX_TOKENS - used < k" by arith
    then have "(RAG_MAX_TOKENS - used) div k = 0" by simp
    with True Cons.prems show ?thesis by simp
  next
    case False
    then have le: "used + k \<le> RAG_MAX_TOKENS" by simp
    have d: "(RAG_MAX_TOKENS - used) div k = Suc ((RAG_MAX_TOKENS - (used + k)) div k)"
      using le \<open>0 < k\<close> by (simp add: le_div_geq)
    have "build_context E (used + k) rest
            = Inr (replicate (min (length rest) ((RAG_MAX_TOKENS - (used + k)) div k)) p)"
      using Cons.prems le by (intro Cons.IH) auto
    with False Cons.prems d show ?thesis by simp
  qed
qed

lemma build_context_ex:
  "build_context E0 0 (map ex_chunk231 [0..<n]) = Inr (replicate (min n 10) ex_block231)"
proof -
  have "build_context E0 0 (map ex_chunk231 [0..<n])
          = Inr (replicate (min (length (map ex_chunk231 [0..<n])) ((RAG_MAX_TOKENS - 0) div 300))
                   ex_block231)"
    by (rule build_context_same[where t = ex_text231])
       (auto simp: format_ex_chunk231 est_tokens_ex_text231 text_ex_chunk231 RAG_MAX_TOKENS_def)
  then show ?thesis by (simp add: RAG_MAX_TOKENS_def)
qed

lemma tokens_of_ex: "tokens_of (map ex_chunk231 ns) = 300 * length ns"
  by (induction ns) (simp_all add: tokens_of_def ex_chunk231_def est_tokens_ex_text231)

lemma claimed_cost_ex: "sum_list (map claimed_cost (map ex_chunk231 ns)) = 300.3 * real (length ns)"
  by (induction ns) (simp_all add: claimed_cost_def ex_chunk231_def words_ex_text231 algebra_simps)

text \<open>
  Claim C4 as stated fails: with the cost of a chunk taken as its word count times 1.3,
  ten chunks of 231 words cost 3003, above the budget of 3000, and the loop includes
  all ten (it counts \<open>int(231 * 1.3) = 300\<close> for each).
\<close>

theorem token_budget_counterexample:
  "build_context E0 0 ex_chunks10 = Inr (replicate 10 ex_block231)
   \<and> real RAG_MAX_TOKENS < sum_list (map claimed_cost ex_chunks10)"
  unfolding ex_chunks10_def
  by (simp only: build_context_ex claimed_cost_ex) (simp add: RAG_MAX_TOKENS_def)

text \<open>
  Claim C4, amended. The cost of a chunk is the integer part of its word count times 1.3
  (\<open>est_tokens\<close>). When the budget loop returns, the blocks are the formatted first
  \<open>n\<close> chunks, each block ending with the whole text of its chunk; their costs sum to
  at most the budget; and when a chunk is left, the first one left would push the sum
  over the budget, and no later chunk is included.
\<close>

theorem token_budget:
  assumes "build_context E 0 chs = Inr parts"
  shows "length parts \<le> length chs
       \<and> map (format_chunk E) (take (length parts) chs) = map Inr parts
       \<and> tokens_of (take (length parts) chs) \<le> RAG_MAX_TOKENS
       \<and> (length parts < length chs \<longrightarrow>
            tokens_of (take (Suc (length parts)) chs) > RAG_MAX_TOKENS)
       \<and> (\<forall>i < length parts. \<exists>header. parts ! i = header @ [CHR 0x0A] @ chunk_text (chs ! i))"
proof -
  note pre = build_context_prefix[OF assms]
  have "\<exists>header. parts ! i = header @ [CHR 0x0A] @ chunk_text (chs ! i)" if "i < length parts" for i
  proof -
    from pre that have i: "i < length (take (length parts) chs)" by simp
    from pre have "map (format_chunk E) (take (length parts) chs) ! i = map Inr parts ! i"
      by simp
    then have "format_chunk E (take (length parts) chs ! i) = Inr (parts ! i)"
      using i that by (simp only: nth_map)
    with that have "format_chunk E (chs ! i) = Inr (parts ! i)" by simp
    then show ?thesis by (rule format_chunk_text)
  qed
  with pre show ?thesis by simp
qed

theorem token_budget_witness:
  "build_context E0 0 ex_chunks11 = Inr (replicate 10 ex_block231)
   \<and> length (replicate 10 ex_block231) < length ex_chunks11
   \<and> tokens_of (take 10 ex_chunks11) \<le> RAG_MAX_TOKENS
   \<and> tokens_of (take 11 ex_chunks11) > RAG_MAX_TOKENS"
proof -
  have run: "build_context E0 0 ex_chunks11 = Inr (replicate 10 ex_block231)"
    by (simp add: ex_chunks11_def build_context_ex)
  have len: "length (replicate 10 ex_block231) < length ex_chunks11"
    by (simp add: ex_chunks11_def)
  from token_budget[OF run] len show ?thesis
    using run by simp
qed

section \<open>Ranks of the two sources\<close>

lemma rank_from_bounds:
  "rank_from n xs x = Some k \<Longrightarrow> n < k \<and> k \<le> n + length xs \<and> xs ! (k - Suc n) = x"
proof (induction xs arbitrary: n)
  case Nil
  then show ?case by simp
next
  case (Cons y ys)
  show ?case
  proof (cases "rank_from (Suc n) ys x")
    case None
    with Cons.prems show ?thesis by (auto split: if_splits)
  next
    case (Some j)
    with Cons.prems have "j = k" by simp
    with Some Cons.IH[of "Suc n"] have "Suc n < k \<and> k \<le> Suc n + length ys \<and> ys ! (k - Suc (Suc n)) = x"
      by simp
    moreover from this have "k - Suc n = Suc (k - Suc (Suc n))" by arith
    ultimately show ?thesis by simp
  qed
qed

lemma rank_from_None: "rank_from n xs x = None \<longleftrightarrow> x \<notin> set xs"
proof (induction xs arbitrary: n)
  case Nil
  then show ?case by simp
next
  case (Cons a xs)
  have "rank_from (Suc n) xs x = None \<longleftrightarrow> x \<notin> set xs" by (rule Cons.IH)
  then show ?case by (cases "rank_from (Suc n) xs x") auto
qed

lemma rank_term_le:
  assumes "0 \<le> w" and "\<forall>k. rk = Some k \<longrightarrow> 1 \<le> k"
  shows "0 \<le> rank_term w rk \<and> rank_term w rk \<le> w / 61"
proof (cases rk)
  case None
  with assms show ?thesis by (simp add: rank_term_def)
next
  case (Some k)
  with assms have "1 \<le> k" by simp
  then have "(61::real) \<le> 60 + real k" by simp
  with assms(1) have "w / (60 + real k) \<le> w / 61"
    by (intro divide_left_mono) auto
  with Some assms(1) show ?thesis by (simp add: rank_term_def)
qed

lemma bm25_loop_ranks:
  assumes "bm25_loop r scores cid (enumerate n idxs) acc = Inr bm"
  shows "map_option fst (map_of bm d)
       = (case rank_from n (map (lexical_entry r scores cid) idxs) (Some d) of
            Some k \<Rightarrow> Some k
          | None \<Rightarrow> map_option fst (map_of acc d))"
  using assms
proof (induction idxs arbitrary: n acc)
  case Nil
  then show ?case by simp
next
  case (Cons idx rest)
  let ?d0 = "doc_ids r ! idx"
  consider
    (skip) "lexical_entry r scores cid idx = None"
           "bm25_loop r scores cid (enumerate (Suc n) rest) acc = Inr bm"
  | (add) "lexical_entry r scores cid idx = Some ?d0"
          "bm25_loop r scores cid (enumerate (Suc n) rest)
             (AList.update ?d0 (Suc n, scores ! idx) acc) = Inr bm"
    using Cons.prems
    by (auto simp: Let_def lexical_entry_def snapshot_conv_def split: if_splits option.splits)
  then show ?case
  proof cases
    case skip
    from Cons.IH[OF skip(2)] skip(1) show ?thesis
      by (simp split: option.splits)
  next
    case add
    from Cons.IH[OF add(2)] add(1) show ?thesis
      by (simp add: update_conv' split: option.splits)
  qed
qed

lemma bm25_retrieval_ranks:
  assumes "bm25_retrieval r scores cid top_k = Inr bm"
  shows "map_option fst (map_of bm d) = rank_in (lexical_list r scores cid top_k) (Some d)"
  using bm25_loop_ranks[of r scores cid 0 "bm25_top_indices scores top_k" "[]" bm d] assms
  by (simp add: bm25_retrieval_def rank_in_def lexical_list_def split: option.splits)

lemma dense_fold_ranks:
  "map_option fst
     (map_of (foldl (\<lambda>d (rank, (doc_id, dist)). AList.update doc_id (rank + 1, 1 - dist) d) acc
                (enumerate n ps)) x)
   = (case rank_from n (map fst ps) x of
        Some k \<Rightarrow> Some k
      | None \<Rightarrow> map_option fst (map_of acc x))"
  by (induction ps arbitrary: n acc) (auto simp: update_conv' split: option.splits)

lemma dense_result_dict_ranks:
  assumes "length ids = length dists"
  shows "map_option fst (map_of (dense_result_dict (ids, dists)) d) = rank_in ids d"
proof (cases "ids = []")
  case True
  then show ?thesis by (simp add: dense_result_dict_def rank_in_def)
next
  case False
  with assms show ?thesis
    using dense_fold_ranks[of "[]" 0 "zip ids dists" d]
    by (simp add: dense_result_dict_def rank_in_def split: option.splits)
qed

lemma coll_query_shape:
  assumes "coll_query c text n cid = Inr (ids, dists)"
  shows "length ids = length dists \<and> length ids \<le> n
       \<and> (\<forall>d \<in> set ids. \<exists>e \<in> set (entries c). fst e = d \<and> entry_conv e = Some (PyStr cid))"
proof -
  let ?near = "take n (sort_key (\<lambda>e. distance c text (fst e))
                         (filter (\<lambda>e. entry_conv e = Some (PyStr cid)) (entries c)))"
  from assms have ids: "ids = map fst ?near" and ds: "dists = map (\<lambda>e. distance c text (fst e)) ?near"
    by (auto simp: coll_query_def Let_def split: if_splits)
  have "set ?near \<subseteq> {e \<in> set (entries c). entry_conv e = Some (PyStr cid)}"
    using set_take_subset[of n] by fastforce
  with ids ds show ?thesis by auto
qed

lemma rrf_score_ranks:
  "rrf_score bw dw bm dn d
     = rank_term bw (map_option fst (map_of bm d)) + rank_term dw (map_option fst (map_of dn d))"
  by (simp add: rrf_score_def rank_term_def k_const_def Let_def split: option.splits)

lemma map_of_combined_scores:
  "map_of (combined_scores E bw dw bm dn) d
     = (if d \<in> fst ` set bm \<union> fst ` set dn then Some (rrf_score bw dw bm dn d) else None)"
proof -
  have "map_of (map (\<lambda>k. (k, f k)) xs) d = (if d \<in> set xs then Some (f d) else None)"
    for f :: "string \<Rightarrow> real" and xs
    by (induction xs) auto
  then show ?thesis by (simp add: combined_scores_def set_iter_def)
qed

lemma distinct_combined_scores: "distinct (map fst (combined_scores E bw dw bm dn))"
  by (simp add: combined_scores_def set_iter_def comp_def)

lemma results_in_combined:
  assumes "results = make_results dm (sorted_items combined top_k)" and "res \<in> set results"
  shows "(res_id res, res_score res) \<in> set combined"
proof -
  from assms(2) have "(res_id res, res_score res) \<in> set (map (\<lambda>res. (res_id res, res_score res)) results)"
    by force
  then have "(res_id res, res_score res) \<in> set (sorted_items combined top_k)"
    by (simp only: assms(1) make_results_items)
  then show ?thesis
    unfolding sorted_items_def using set_take_subset by fastforce
qed

lemma key_iff_map_of: "d \<in> fst ` set al \<longleftrightarrow> map_option fst (map_of al d) \<noteq> None"
  by (simp add: map_of_eq_None_iff)

text \<open>What a successful run of the fusion steps fixes, in the words of the specification.\<close>

lemma retrieve_indexed_fused:
  assumes "retrieve_indexed E c r gs query cid top_k bw dw = Inr results"
  shows "\<exists>bm ids dists.
           bm25_retrieval r (gs (split (lower query))) cid top_k = Inr bm
         \<and> coll_query c query (top_k * 2) cid = Inr (ids, dists)
         \<and> (\<forall>d. map_option fst (map_of bm d)
                  = rank_in (lexical_list r (gs (split (lower query))) cid top_k) (Some d))
         \<and> (\<forall>d. map_option fst (map_of (dense_result_dict (ids, dists)) d) = rank_in ids d)
         \<and> (\<forall>d. map_of (combined_scores E bw dw bm (dense_result_dict (ids, dists))) d
                  = (if Some d \<in> set (lexical_list r (gs (split (lower query))) cid top_k) \<or> d \<in> set ids
                     then Some (spec_fused bw dw
                                  (lexical_list r (gs (split (lower query))) cid top_k) ids d)
                     else None))
         \<and> (\<forall>res \<in> set results.
               (res_id res, res_score res)
                 \<in> set (combined_scores E bw dw bm (dense_result_dict (ids, dists))))"
proof -
  let ?lex = "lexical_list r (gs (split (lower query))) cid top_k"
  from retrieve_indexed_shape[OF assms] obtain bm dense dm where
    bm: "bm25_retrieval r (gs (split (lower query))) cid top_k = Inr bm" and
    q: "coll_query c query (top_k * 2) cid = Inr dense" and
    res: "results = make_results dm
                 (sorted_items (combined_scores E bw dw bm (dense_result_dict dense)) top_k)"
    by blast
  obtain ids dists where dense: "dense = (ids, dists)" by (cases dense)
  let ?dn = "dense_result_dict (ids, dists)"
  from q dense have len: "length ids = length dists"
    using coll_query_shape by blast
  have lexr: "map_option fst (map_of bm d) = rank_in ?lex (Some d)" for d
    by (rule bm25_retrieval_ranks[OF bm])
  have denr: "map_option fst (map_of ?dn d) = rank_in ids d" for d
    by (rule dense_result_dict_ranks[OF len])
  have keys: "d \<in> fst ` set bm \<union> fst ` set ?dn \<longleftrightarrow> Some d \<in> set ?lex \<or> d \<in> set ids" for d
    unfolding Un_iff key_iff_map_of lexr denr
    by (simp add: rank_in_def rank_from_None)
  have comb: "map_of (combined_scores E bw dw bm ?dn) d
                = (if Some d \<in> set ?lex \<or> d \<in> set ids
                   then Some (spec_fused bw dw ?lex ids d) else None)" for d
    unfolding map_of_combined_scores keys
    by (simp add: rrf_score_ranks lexr denr spec_fused_def)
  have mem: "\<forall>res \<in> set results.
               (res_id res, res_score res) \<in> set (combined_scores E bw dw bm ?dn)"
    using results_in_combined[OF res[unfolded dense]] by blast
  from bm q dense lexr denr comb mem show ?thesis by blast
qed

lemma rrf_formula_core:
  assumes "retrieve_indexed E c r gs query cid top_k bw dw = Inr results"
  shows "\<exists>ids dists.
           coll_query c query (top_k * 2) cid = Inr (ids, dists)
         \<and> (\<forall>res \<in> set results.
               (Some (res_id res) \<in> set (lexical_list r (gs (split (lower query))) cid top_k)
                  \<or> res_id res \<in> set ids)
             \<and> res_score res
                 = spec_fused bw dw (lexical_list r (gs (split (lower query))) cid top_k) ids
                     (res_id res))"
proof -
  let ?lex = "lexical_list r (gs (split (lower query))) cid top_k"
  from retrieve_indexed_fused[OF assms] obtain bm ids dists where
    q: "coll_query c query (top_k * 2) cid = Inr (ids, dists)" and
    comb: "\<forall>d. map_of (combined_scores E bw dw bm (dense_result_dict (ids, dists))) d
                  = (if Some d \<in> set ?lex \<or> d \<in> set ids
                     then Some (spec_fused bw dw ?lex ids d) else None)" and
    mem: "\<forall>res \<in> set results.
            (res_id res, res_score res)
              \<in> set (combined_scores E bw dw bm (dense_result_dict (ids, dists)))"
    by blast
  have "(Some (res_id res) \<in> set ?lex \<or> res_id res \<in> set ids)
      \<and> res_score res = spec_fused bw dw ?lex ids (res_id res)" if "res \<in> set results" for res
  proof -
    from mem that have "(res_id res, res_score res)
                     \<in> set (combined_scores E bw dw bm (dense_result_dict (ids, dists)))"
      by blast
    then have "map_of (combined_scores E bw dw bm (dense_result_dict (ids, dists))) (res_id res)
                 = Some (res_score res)"
      using distinct_combined_scores by (simp add: map_of_eq_Some_iff)
    with comb show ?thesis by (auto split: if_splits)
  qed
  with q show ?thesis by blast
qed

section \<open>The fused score\<close>

lemma bm25_top_indices_desc:
  "sorted_wrt (\<lambda>i j. scores ! i \<ge> scores ! j) (bm25_top_indices scores top_k)"
proof -
  have "sorted (map (\<lambda>i. scores ! i) (argsort scores))"
    unfolding argsort_def by (rule sorted_sort_key)
  then have "sorted_wrt (\<lambda>i j. scores ! i \<le> scores ! j) (argsort scores)"
    by (simp add: sorted_map)
  then have "sorted_wrt (\<lambda>i j. scores ! i \<ge> scores ! j) (rev (argsort scores))"
    by (simp add: sorted_wrt_rev)
  then show ?thesis
    unfolding bm25_top_indices_def by (rule sorted_wrt_take)
qed

lemma rank_in_position:
  assumes "rank_in xs x = Some k"
  shows "1 \<le> k \<and> k \<le> length xs \<and> xs ! (k - 1) = x"
  using rank_from_bounds[of 0 xs x k] assms by (simp add: rank_in_def)

lemma rebuild_ex_store_z: "rebuild_bm25_index E0 ex_store_z new_retriever = (ex_snapshot_z, Inr ())"
  by (simp add: rebuild_bm25_index_def coll_get_all_def unzip_entries_def ex_store_z_def E0_def
        new_retriever_def ex_snapshot_z_def ex_corpus_z_def dict_of_def
        split_def lower_def lower_char_def is_space_def)

text \<open>
  Claim C2 as stated fails. For the query \<open>capital\<close> and conversation \<open>c1\<close> on
  \<open>ex_store_z\<close>, the lexical list that enters fusion holds the single identifier \<open>a\<close>,
  which is its best entry, and the dense list is \<open>a\<close>, \<open>bb\<close>. With rank 1 for the best
  entry of each list the fused score of \<open>a\<close> would be \<open>0.5 / 61 + 0.5 / 61\<close>. The code
  stores \<open>a\<close> with the lexical rank 2, its position in the BM25 order of all
  conversations, where \<open>z\<close> of conversation \<open>c2\<close> comes first, and returns
  \<open>0.5 / 62 + 0.5 / 61\<close>.
\<close>

theorem rrf_formula_counterexample:
  "rebuild_bm25_index E0 ex_store_z new_retriever = (ex_snapshot_z, Inr ())
   \<and> bm25_retrieval ex_snapshot_z (overlap_scores ex_corpus_z (split (lower ''capital''))) ''c1'' 10
       = Inr [(''a'', 2, 1)]
   \<and> coll_query ex_store_z ''capital'' (10 * 2) ''c1'' = Inr ([''a'', ''bb''], [0.1, 0.2])
   \<and> map_sum id (map res_id) (snd (retrieve E0 ex_store_z new_retriever ''capital'' ''c1'' 10 0.5 0.5))
       = Inr [''a'', ''bb'']
   \<and> map_sum id (map res_score) (snd (retrieve E0 ex_store_z new_retriever ''capital'' ''c1'' 10 0.5 0.5))
       = Inr [0.5 / 62 + 0.5 / 61, 0.5 / 62]
   \<and> claimed_fused 0.5 0.5 [''a''] [''a'', ''bb''] ''a'' = 0.5 / 61 + 0.5 / 61
   \<and> claimed_fused 0.5 0.5 [''a''] [''a'', ''bb''] ''a'' \<noteq> 0.5 / 62 + 0.5 / 61"
proof -
  have 1: "bm25_retrieval ex_snapshot_z (overlap_scores ex_corpus_z (split (lower ''capital''))) ''c1'' 10
       = Inr [(''a'', 2, 1)]"
    by code_simp
  have 2: "coll_query ex_store_z ''capital'' (10 * 2) ''c1'' = Inr ([''a'', ''bb''], [0.1, 0.2])"
    by code_simp
  have 3: "map_sum id (map res_id) (snd (retrieve E0 ex_store_z new_retriever ''capital'' ''c1'' 10 0.5 0.5))
       = Inr [''a'', ''bb'']"
    by code_simp
  have 4: "map_sum id (map res_score) (snd (retrieve E0 ex_store_z new_retriever ''capital'' ''c1'' 10 0.5 0.5))
       = Inr [0.5 / 62 + 0.5 / 61, 0.5 / 62]"
    by code_simp
  have 5: "claimed_fused 0.5 0.5 [''a''] [''a'', ''bb''] ''a'' = 0.5 / 61 + 0.5 / 61"
    by (simp add: claimed_fused_def rank_term_def rank_in_def)
  have 6: "claimed_fused 0.5 0.5 [''a''] [''a'', ''bb''] ''a'' \<noteq> 0.5 / 62 + 0.5 / 61"
    unfolding 5 by simp
  from rebuild_ex_store_z 1 2 3 4 5 6 show ?thesis by blast
qed

text \<open>
  Claim C2, amended. After a successful run of the fusion steps of
  \<^verbatim>\<open>HybridRetriever.retrieve\<close>: the lexical ranking is the BM25 order of the documents of
  all conversations, by descending score, cut to its first \<open>2 * top_k\<close> positions; a
  document with a score that is not positive or of another conversation is dropped from
  fusion, and the others keep their positions as lexical ranks, counted from 1 (so the best
  lexical entry of the conversation can have a rank above 1). The dense list is the first
  \<open>2 * top_k\<close> entries of the store's nearest-first order of the conversation, with ranks
  counted from 1. For every identifier in either list the fused score stored in
  \<open>combined_scores\<close> is \<open>wLex / (60 + rankLex) + wDense / (60 + rankDense)\<close>, a term
  being 0 for an identifier absent from that list; no other identifier gets a score; and
  every returned result carries that score.
\<close>

theorem rrf_formula:
  assumes "retrieve_indexed E c r gs query cid top_k bw dw = Inr results"
  shows "\<exists>bm ids dists.
           bm25_retrieval r (gs (split (lower query))) cid top_k = Inr bm
         \<and> coll_query c query (top_k * 2) cid = Inr (ids, dists)
         \<and> lexical_list r (gs (split (lower query))) cid top_k
             = map (lexical_entry r (gs (split (lower query))) cid)
                 (take (2 * top_k) (rev (argsort (gs (split (lower query))))))
         \<and> ids = map fst (take (2 * top_k)
                             (sort_key (\<lambda>e. distance c query (fst e))
                                (filter (\<lambda>e. entry_conv e = Some (PyStr cid)) (entries c))))
         \<and> length (lexical_list r (gs (split (lower query))) cid top_k) \<le> 2 * top_k
         \<and> length ids \<le> 2 * top_k
         \<and> sorted_wrt (\<lambda>i j. gs (split (lower query)) ! i \<ge> gs (split (lower query)) ! j)
              (bm25_top_indices (gs (split (lower query))) top_k)
         \<and> (\<forall>d k. rank_in (lexical_list r (gs (split (lower query))) cid top_k) (Some d) = Some k
                \<longrightarrow> 1 \<le> k \<and> k \<le> 2 * top_k
                    \<and> lexical_list r (gs (split (lower query))) cid top_k ! (k - 1) = Some d)
         \<and> (\<forall>d k. rank_in ids d = Some k \<longrightarrow> 1 \<le> k \<and> k \<le> 2 * top_k \<and> ids ! (k - 1) = d)
         \<and> (\<forall>d. map_of (combined_scores E bw dw bm (dense_result_dict (ids, dists))) d
                  = (if Some d \<in> set (lexical_list r (gs (split (lower query))) cid top_k) \<or> d \<in> set ids
                     then Some (spec_fused bw dw
                                  (lexical_list r (gs (split (lower query))) cid top_k) ids d)
                     else None))
         \<and> (\<forall>res \<in> set results.
               res_score res
                 = spec_fused bw dw (lexical_list r (gs (split (lower query))) cid top_k) ids
                     (res_id res))"
proof -
  let ?scores = "gs (split (lower query))"
  let ?lex = "lexical_list r ?scores cid top_k"
  from retrieve_indexed_fused[OF assms] obtain bm ids dists where
    bm: "bm25_retrieval r ?scores cid top_k = Inr bm" and
    q: "coll_query c query (top_k * 2) cid = Inr (ids, dists)" and
    comb: "\<forall>d. map_of (combined_scores E bw dw bm (dense_result_dict (ids, dists))) d
                  = (if Some d \<in> set ?lex \<or> d \<in> set ids
                     then Some (spec_fused bw dw ?lex ids d) else None)" and
    mem: "\<forall>res \<in> set results.
            (res_id res, res_score res)
              \<in> set (combined_scores E bw dw bm (dense_result_dict (ids, dists)))"
    by blast
  have cut1: "?lex = map (lexical_entry r ?scores cid) (take (2 * top_k) (rev (argsort ?scores)))"
    by (simp add: lexical_list_def bm25_top_indices_def mult.commute)
  have cut2: "ids = map fst (take (2 * top_k)
                             (sort_key (\<lambda>e. distance c query (fst e))
                                (filter (\<lambda>e. entry_conv e = Some (PyStr cid)) (entries c))))"
    using q by (auto simp: coll_query_def Let_def mult.commute split: if_splits)
  have l1: "length ?lex \<le> 2 * top_k"
    by (simp add: lexical_list_def bm25_top_indices_def)
  have l2: "length ids \<le> 2 * top_k"
    using coll_query_shape[OF q] by (simp add: mult.commute)
  have srt: "sorted_wrt (\<lambda>i j. ?scores ! i \<ge> ?scores ! j) (bm25_top_indices ?scores top_k)"
    by (rule bm25_top_indices_desc)
  have r1: "\<forall>d k. rank_in ?lex (Some d) = Some k
                \<longrightarrow> 1 \<le> k \<and> k \<le> 2 * top_k \<and> ?lex ! (k - 1) = Some d"
    using rank_in_position l1 by (metis le_trans)
  have r2: "\<forall>d k. rank_in ids d = Some k \<longrightarrow> 1 \<le> k \<and> k \<le> 2 * top_k \<and> ids ! (k - 1) = d"
    using rank_in_position l2 by (metis le_trans)
  have sc: "\<forall>res \<in> set results. res_score res = spec_fused bw dw ?lex ids (res_id res)"
  proof
    fix res assume "res \<in> set results"
    with mem have "(res_id res, res_score res)
                     \<in> set (combined_scores E bw dw bm (dense_result_dict (ids, dists)))"
      by blast
    then have "map_of (combined_scores E bw dw bm (dense_result_dict (ids, dists))) (res_id res)
                 = Some (res_score res)"
      using distinct_combined_scores by (simp add: map_of_eq_Some_iff)
    with comb show "res_score res = spec_fused bw dw ?lex ids (res_id res)"
      by (auto split: if_splits)
  qed
  from bm q cut1 cut2 l1 l2 srt r1 r2 comb sc show ?thesis by blast
qed

theorem rrf_formula_witness:
  "retrieve_indexed E0 ex_store_z ex_snapshot_z (overlap_scores ex_corpus_z) ''capital'' ''c1'' 10
       0.5 0.5 = Inr ex_results_z
   \<and> coll_query ex_store_z ''capital'' (10 * 2) ''c1'' = Inr ([''a'', ''bb''], [0.1, 0.2])
   \<and> lexical_list ex_snapshot_z (overlap_scores ex_corpus_z (split (lower ''capital''))) ''c1'' 10
       = [None, Some ''a'', None, None, None]
   \<and> rank_in [None, Some ''a'', None, None, None] (Some ''a'') = Some 2
   \<and> res_score (ex_results_z ! 0)
       = spec_fused 0.5 0.5 [None, Some ''a'', None, None, None] [''a'', ''bb''] ''a''
   \<and> res_score (ex_results_z ! 1)
       = spec_fused 0.5 0.5 [None, Some ''a'', None, None, None] [''a'', ''bb''] ''bb''
   \<and> spec_fused 0.5 0.5 [None, Some ''a'', None, None, None] [''a'', ''bb''] ''a'' = 0.5 / 62 + 0.5 / 61"
proof -
  have run: "retrieve_indexed E0 ex_store_z ex_snapshot_z (overlap_scores ex_corpus_z) ''capital''
               ''c1'' 10 0.5 0.5 = Inr ex_results_z"
    by code_simp
  have q: "coll_query ex_store_z ''capital'' (10 * 2) ''c1'' = Inr ([''a'', ''bb''], [0.1, 0.2])"
    by code_simp
  have lx: "lexical_list ex_snapshot_z (overlap_scores ex_corpus_z (split (lower ''capital'')))
              ''c1'' 10 = [None, Some ''a'', None, None, None]"
    by code_simp
  have rk: "rank_in [None, Some ''a'', None, None, None] (Some ''a'') = Some 2"
    by (simp add: rank_in_def)
  have val: "spec_fused 0.5 0.5 [None, Some ''a'', None, None, None] [''a'', ''bb''] ''a''
               = 0.5 / 62 + 0.5 / 61"
    by (simp add: spec_fused_def rank_term_def rank_in_def)
  from rrf_formula[OF run] obtain ids dists where
    q': "coll_query ex_store_z ''capital'' (10 * 2) ''c1'' = Inr (ids, dists)" and
    sc: "\<forall>res \<in> set ex_results_z.
           res_score res
             = spec_fused 0.5 0.5
                 (lexical_list ex_snapshot_z (overlap_scores ex_corpus_z (split (lower ''capital'')))
                    ''c1'' 10) ids (res_id res)"
    by blast
  from q q' have ids: "ids = [''a'', ''bb'']" by simp
  have "ex_results_z ! 0 \<in> set ex_results_z" "ex_results_z ! 1 \<in> set ex_results_z"
    by (simp_all add: ex_results_z_def)
  with sc have "res_score (ex_results_z ! 0)
                  = spec_fused 0.5 0.5 [None, Some ''a'', None, None, None] [''a'', ''bb'']
                      (res_id (ex_results_z ! 0))"
    and "res_score (ex_results_z ! 1)
                  = spec_fused 0.5 0.5 [None, Some ''a'', None, None, None] [''a'', ''bb'']
                      (res_id (ex_results_z ! 1))"
    unfolding lx ids by blast+
  then show ?thesis
    using run q lx rk val by (simp add: ex_results_z_def)
qed

section \<open>Candidates of a single source\<close>

lemma single_source_bound:
  assumes "Some d \<notin> set lex_list \<or> d \<notin> set dense_list"
  shows "spec_fused 0.5 0.5 lex_list dense_list d \<le> 0.5 / (60 + 1)
       \<and> spec_fused 0.5 0.5 lex_list dense_list d < threshold"
proof -
  have a: "0 \<le> rank_term 0.5 (rank_in lex_list (Some d))
           \<and> rank_term 0.5 (rank_in lex_list (Some d)) \<le> 0.5 / 61"
    using rank_in_position[of lex_list "Some d"] by (intro rank_term_le) auto
  have b: "0 \<le> rank_term 0.5 (rank_in dense_list d)
           \<and> rank_term 0.5 (rank_in dense_list d) \<le> 0.5 / 61"
    using rank_in_position[of dense_list d] by (intro rank_term_le) auto
  from assms have "rank_term 0.5 (rank_in lex_list (Some d)) = 0
                 \<or> rank_term 0.5 (rank_in dense_list d) = 0"
  proof
    assume "Some d \<notin> set lex_list"
    then have "rank_in lex_list (Some d) = None" by (simp add: rank_in_def rank_from_None)
    then show ?thesis by (simp add: rank_term_def)
  next
    assume "d \<notin> set dense_list"
    then have "rank_in dense_list d = None" by (simp add: rank_in_def rank_from_None)
    then show ?thesis by (simp add: rank_term_def)
  qed
  with a b have "spec_fused 0.5 0.5 lex_list dense_list d \<le> 0.5 / 61"
    by (auto simp: spec_fused_def)
  then show ?thesis by (simp add: threshold_def)
qed

lemma join_empty: "join sep parts \<noteq> [] \<Longrightarrow> parts \<noteq> []"
  by auto

text \<open>The retrieval behind a non-empty context, down to the two source lists.\<close>

lemma council_sources:
  assumes "snd (council_retrieve E c rag q cid) = Inr ctx" "ctx \<noteq> []"
  shows "\<exists>r0 r gs results ids dists parts.
           retriever rag = Some r0
         \<and> retrieve E c r0 q cid 10 0.5 0.5 = (r, Inr results)
         \<and> bm25_index r = Some gs
         \<and> retrieve_indexed E c r gs q cid 10 0.5 0.5 = Inr results
         \<and> coll_query c q (10 * 2) cid = Inr (ids, dists)
         \<and> (\<forall>res \<in> set results.
               (Some (res_id res) \<in> set (lexical_list r (gs (split (lower q))) cid 10)
                  \<or> res_id res \<in> set ids)
             \<and> res_score res
                 = spec_fused 0.5 0.5 (lexical_list r (gs (split (lower q))) cid 10) ids (res_id res))
         \<and> build_context E 0 (filtered_chunks results) = Inr parts
         \<and> ctx = join [CHR 0x0A, CHR 0x0A] parts"
proof -
  from council_shape[OF assms] obtain r0 r results parts where
    r0: "retriever rag = Some r0" and
    ret: "retrieve E c r0 q cid 10 0.5 0.5 = (r, Inr results)" and
    bc: "build_context E 0 (filtered_chunks results) = Inr parts" and
    ctx: "ctx = join [CHR 0x0A, CHR 0x0A] parts" by blast
  from ctx assms(2) have "parts \<noteq> []" by auto
  with build_context_prefix[OF bc] have "filtered_chunks results \<noteq> []" by auto
  then have "results \<noteq> []" by (auto simp: filtered_chunks_def)
  with retrieve_cases[OF ret] obtain gs where
    gs: "bm25_index r = Some gs" and
    ri: "retrieve_indexed E c r gs q cid 10 0.5 0.5 = Inr results" by blast
  let ?lex = "lexical_list r (gs (split (lower q))) cid 10"
  from rrf_formula_core[OF ri] obtain ids dists where
    qr: "coll_query c q (10 * 2) cid = Inr (ids, dists)" and
    key: "\<forall>res \<in> set results.
            (Some (res_id res) \<in> set ?lex \<or> res_id res \<in> set ids)
          \<and> res_score res = spec_fused 0.5 0.5 ?lex ids (res_id res)"
    by blast
  from r0 ret gs ri qr key bc ctx show ?thesis by blast
qed

text \<open>
  Claim C3. With the weights 0.5 and 0.5 that \<^verbatim>\<open>CouncilRAG.retrieve\<close> passes, an
  identifier that is absent from one of the two source lists has a fused score of at most
  \<open>0.5 / (60 + 1)\<close>, which is below the threshold 0.01; so every result that is in one
  list only is dropped by the threshold loop, and every chunk that reaches the budget loop
  (hence every block of a non-empty context) is ranked by both the lexical and the dense
  retriever.
\<close>

theorem single_source_dropped:
  assumes "snd (council_retrieve E c rag q cid) = Inr ctx" "ctx \<noteq> []"
  shows "\<exists>r0 r gs results ids dists n parts.
           retriever rag = Some r0
         \<and> retrieve E c r0 q cid 10 0.5 0.5 = (r, Inr results)
         \<and> bm25_index r = Some gs
         \<and> coll_query c q (10 * 2) cid = Inr (ids, dists)
         \<and> (\<forall>res \<in> set results.
               Some (res_id res) \<notin> set (lexical_list r (gs (split (lower q))) cid 10)
                 \<or> res_id res \<notin> set ids
               \<longrightarrow> res_score res \<le> 0.5 / (60 + 1) \<and> res_score res < threshold
                   \<and> to_chunk res \<notin> set (filtered_chunks results))
         \<and> (\<forall>ch \<in> set (filtered_chunks results).
               Some (chunk_id ch) \<in> set (lexical_list r (gs (split (lower q))) cid 10)
             \<and> chunk_id ch \<in> set ids)
         \<and> map (format_chunk E) (take n (filtered_chunks results)) = map Inr parts
         \<and> ctx = join [CHR 0x0A, CHR 0x0A] parts"
proof -
  from council_sources[OF assms] obtain r0 r gs results ids dists parts where
    r0: "retriever rag = Some r0" and
    ret: "retrieve E c r0 q cid 10 0.5 0.5 = (r, Inr results)" and
    gs: "bm25_index r = Some gs" and
    qr: "coll_query c q (10 * 2) cid = Inr (ids, dists)" and
    key: "\<forall>res \<in> set results.
            (Some (res_id res) \<in> set (lexical_list r (gs (split (lower q))) cid 10)
               \<or> res_id res \<in> set ids)
          \<and> res_score res
              = spec_fused 0.5 0.5 (lexical_list r (gs (split (lower q))) cid 10) ids (res_id res)" and
    bc: "build_context E 0 (filtered_chunks results) = Inr parts" and
    ctx: "ctx = join [CHR 0x0A, CHR 0x0A] parts" by blast
  let ?lex = "lexical_list r (gs (split (lower q))) cid 10"
  have low: "res_score res \<le> 0.5 / (60 + 1) \<and> res_score res < threshold"
    if "res \<in> set results" "Some (res_id res) \<notin> set ?lex \<or> res_id res \<notin> set ids" for res
    using key that single_source_bound[of "res_id res" ?lex ids] by simp
  have kept: "\<not> chunk_similarity ch < threshold \<and> (\<exists>res \<in> set results. ch = to_chunk res)"
    if "ch \<in> set (filtered_chunks results)" for ch
    using that by (auto simp: filtered_chunks_def to_chunk_def)
  have drop: "\<forall>res \<in> set results.
               Some (res_id res) \<notin> set ?lex \<or> res_id res \<notin> set ids
               \<longrightarrow> res_score res \<le> 0.5 / (60 + 1) \<and> res_score res < threshold
                   \<and> to_chunk res \<notin> set (filtered_chunks results)"
  proof (intro ballI impI)
    fix res assume res: "res \<in> set results"
      and one: "Some (res_id res) \<notin> set ?lex \<or> res_id res \<notin> set ids"
    from low[OF res one] have lt: "res_score res < threshold" by simp
    have "to_chunk res \<notin> set (filtered_chunks results)"
    proof
      assume "to_chunk res \<in> set (filtered_chunks results)"
      from kept[OF this] have "\<not> chunk_similarity (to_chunk res) < threshold" by simp
      with lt show False by (simp add: to_chunk_def)
    qed
    with low[OF res one] show "res_score res \<le> 0.5 / (60 + 1) \<and> res_score res < threshold
                   \<and> to_chunk res \<notin> set (filtered_chunks results)" by simp
  qed
  have both: "\<forall>ch \<in> set (filtered_chunks results). Some (chunk_id ch) \<in> set ?lex \<and> chunk_id ch \<in> set ids"
  proof
    fix ch assume ch: "ch \<in> set (filtered_chunks results)"
    from kept[OF ch] obtain res where res: "res \<in> set results" and eq: "ch = to_chunk res"
      and ge: "\<not> chunk_similarity ch < threshold" by blast
    from ge eq have "\<not> res_score res < threshold" by (simp add: to_chunk_def)
    with low[OF res] have "Some (res_id res) \<in> set ?lex \<and> res_id res \<in> set ids" by blast
    with eq show "Some (chunk_id ch) \<in> set ?lex \<and> chunk_id ch \<in> set ids"
      by (simp add: to_chunk_def)
  qed
  have fm: "map (format_chunk E) (take (length parts) (filtered_chunks results)) = map Inr parts"
    using build_context_prefix[OF bc] by simp
  from r0 ret gs qr drop both fm ctx show ?thesis by blast
qed

theorem single_source_dropped_witness:
  "snd (council_retrieve E0 ex_store ex_rag ''France'' ''c1'')
       = Inr (''[Turn 0 | Stage opinion | Model: m1]'' @ [CHR 0x0A] @ ''capital france paris'')
   \<and> map_sum id (map res_id) (snd (retrieve E0 ex_store new_retriever ''France'' ''c1'' 10 0.5 0.5))
       = Inr [''a'', ''bb'']
   \<and> map_sum id (map res_score) (snd (retrieve E0 ex_store new_retriever ''France'' ''c1'' 10 0.5 0.5))
       = Inr [0.5 / 61 + 0.5 / 62, 0.5 / 61]
   \<and> (\<exists>r0 r gs results ids dists n parts.
           retriever ex_rag = Some r0
         \<and> retrieve E0 ex_store r0 ''France'' ''c1'' 10 0.5 0.5 = (r, Inr results)
         \<and> bm25_index r = Some gs
         \<and> coll_query ex_store ''France'' (10 * 2) ''c1'' = Inr (ids, dists)
         \<and> (\<forall>res \<in> set results.
               Some (res_id res) \<notin> set (lexical_list r (gs (split (lower ''France''))) ''c1'' 10)
                 \<or> res_id res \<notin> set ids
               \<longrightarrow> res_score res \<le> 0.5 / (60 + 1) \<and> res_score res < threshold
                   \<and> to_chunk res \<notin> set (filtered_chunks results))
         \<and> (\<forall>ch \<in> set (filtered_chunks results).
               Some (chunk_id ch) \<in> set (lexical_list r (gs (split (lower ''France''))) ''c1'' 10)
             \<and> chunk_id ch \<in> set ids)
         \<and> map (format_chunk E0) (take n (filtered_chunks results)) = map Inr parts
         \<and> ''[Turn 0 | Stage opinion | Model: m1]'' @ [CHR 0x0A] @ ''capital france paris''
             = join [CHR 0x0A, CHR 0x0A] parts)"
proof -
  have run: "snd (council_retrieve E0 ex_store ex_rag ''France'' ''c1'')
       = Inr (''[Turn 0 | Stage opinion | Model: m1]'' @ [CHR 0x0A] @ ''capital france paris'')"
    by code_simp
  have ne: "''[Turn 0 | Stage opinion | Model: m1]'' @ [CHR 0x0A] @ ''capital france paris'' \<noteq> []"
    by simp
  have ids: "map_sum id (map res_id) (snd (retrieve E0 ex_store new_retriever ''France'' ''c1'' 10 0.5 0.5))
       = Inr [''a'', ''bb'']"
    by code_simp
  have scs: "map_sum id (map res_score) (snd (retrieve E0 ex_store new_retriever ''France'' ''c1'' 10 0.5 0.5))
       = Inr [0.5 / 61 + 0.5 / 62, 0.5 / 61]"
    by code_simp
  from single_source_dropped[OF run ne] run ids scs show ?thesis by blast
qed

section \<open>Ties of the fused score\<close>

text \<open>
  Claim C8 as stated fails: \<open>E0\<close> and \<open>E1\<close> differ in the string hash only. On the same
  collection, fresh retriever, query, conversation and parameters, the identifiers
  \<open>a\<close> and \<open>bb\<close> get the same fused score, and the two runs return them in opposite
  orders (the second one not in the order of the identifier strings).
\<close>

theorem tie_break_counterexample:
  "map_sum id (map res_id) (snd (retrieve E0 ex_store new_retriever ''Capital France'' ''c1'' 10 0.5 0.5))
     = Inr [''a'', ''bb'']
   \<and> map_sum id (map res_id) (snd (retrieve E1 ex_store new_retriever ''Capital France'' ''c1'' 10 0.5 0.5))
     = Inr [''bb'', ''a'']
   \<and> map_sum id (map res_score) (snd (retrieve E0 ex_store new_retriever ''Capital France'' ''c1'' 10 0.5 0.5))
     = Inr [123 / 7564, 123 / 7564]"
  by code_simp

text \<open>
  Claim C8, amended. The sort by fused score is stable and there is no tie-break by
  identifier: the identifiers that share a fused score \<open>s\<close> leave the sort in the order in
  which the set of candidate identifiers is iterated, which the string hash fixes.
\<close>

theorem tie_order:
  "map fst (filter (\<lambda>item. snd item = s)
              (sorted_items (combined_scores E bw dw bm dn) (length (combined_scores E bw dw bm dn))))
     = filter (\<lambda>d. rrf_score bw dw bm dn d = s) (set_iter E (map fst bm @ map fst dn))"
proof -
  let ?comb = "combined_scores E bw dw bm dn"
  have full: "sorted_items ?comb (length ?comb) = sort_key (\<lambda>item. - snd item) ?comb"
    by (simp add: sorted_items_def)
  have "filter (\<lambda>item. - snd item = - s) (sort_key (\<lambda>item. - snd item) ?comb)
          = filter (\<lambda>item. - snd item = - s) ?comb"
    by (rule sort_key_stable)
  then have st: "filter (\<lambda>item. snd item = s) (sort_key (\<lambda>item. - snd item) ?comb)
          = filter (\<lambda>item. snd item = s) ?comb"
    by simp
  have "map fst (filter (\<lambda>item. snd item = s) (map (\<lambda>d. (d, f d)) xs))
          = filter (\<lambda>d. f d = s) xs" for f :: "string \<Rightarrow> real" and xs
    by (induction xs) auto
  then show ?thesis
    unfolding full st by (simp add: combined_scores_def)
qed

section \<open>Conversation isolation\<close>

lemma map_of_filter_keys:
  "map_of (filter (\<lambda>e. fst e \<in> S) es) d = (if d \<in> S then map_of es d else None)"
  by (induction es) auto

lemma map_of_rev_distinct:
  assumes "distinct (map fst xs)"
  shows "map_of (rev xs) = map_of xs"
proof -
  from assms have "distinct (map fst (rev xs))" by (simp add: rev_map[symmetric])
  with assms show ?thesis by (simp add: map_of_inject_set)
qed

lemma doc_map_fold:
  "map_of (foldl (\<lambda>d (doc_id, meta, doc). AList.update doc_id (F meta, G doc) d) acc
             (map (\<lambda>e. (fst e, snd (snd e), fst (snd e))) es)) x
     = (case map_of (rev es) x of
          Some (doc, meta) \<Rightarrow> Some (F meta, G doc)
        | None \<Rightarrow> map_of acc x)"
  by (induction es arbitrary: acc) (auto simp: update_conv' map_add_def split: option.splits)

lemma zip_entries:
  "zip (map fst es) (zip (map (snd \<circ> snd) es) (map (fst \<circ> snd) es))
     = map (\<lambda>e. (fst e, snd (snd e), fst (snd e))) es"
  by (induction es) auto

lemma map_of_doc_map:
  assumes "distinct (map fst es)"
  shows "map_of (doc_map (unzip_entries es)) d
       = (case map_of es d of
            Some (doc, meta) \<Rightarrow>
              Some (case meta of None \<Rightarrow> [] | Some m \<Rightarrow> m, case doc of None \<Rightarrow> [] | Some t \<Rightarrow> t)
          | None \<Rightarrow> None)"
  unfolding doc_map_def unzip_entries_def prod.case zip_entries
  by (simp add: doc_map_fold map_of_rev_distinct[OF assms] split: option.splits)

lemma make_results_metadata:
  assumes "res \<in> set (make_results dm items)"
  shows "res_metadata res = (case map_of dm (res_id res) of None \<Rightarrow> [] | Some (meta, doc) \<Rightarrow> meta)"
  using assms by (auto simp: make_results_def split: option.splits)

lemma retrieve_indexed_docs:
  assumes "retrieve_indexed E c r gs query cid top_k bw dw = Inr results" and "res \<in> set results"
  shows "\<exists>items. results
           = make_results
               (doc_map (unzip_entries (filter (\<lambda>e. fst e \<in> set (map fst items)) (entries c))))
               items"
proof -
  from assms(1) obtain bm where bm: "bm25_retrieval r (gs (split (lower query))) cid top_k = Inr bm"
    by (auto simp: retrieve_indexed_def Let_def split: sum.splits)
  from assms(1) obtain dense where q: "coll_query c query (top_k * 2) cid = Inr dense"
    by (auto simp: retrieve_indexed_def Let_def split: sum.splits)
  define items where "items = sorted_items (combined_scores E bw dw bm (dense_result_dict dense)) top_k"
  have rest:
    "(if combined_scores E bw dw bm (dense_result_dict dense) = [] then Inr []
      else (case coll_get c (map fst items) of
              Inl e \<Rightarrow> Inl e
            | Inr full \<Rightarrow> Inr (make_results (doc_map full) items))) = Inr results"
    unfolding items_def using assms(1)[unfolded retrieve_indexed_def Let_def bm q sum.case] .
  from rest assms(2) have ne: "combined_scores E bw dw bm (dense_result_dict dense) \<noteq> []"
    by (auto split: if_splits)
  with rest obtain full where
    g: "coll_get c (map fst items) = Inr full" and r: "results = make_results (doc_map full) items"
    by (auto split: sum.splits)
  from g have "full = unzip_entries (filter (\<lambda>e. fst e \<in> set (map fst items)) (entries c))"
    by (auto simp: coll_get_def split: if_splits)
  with r show ?thesis by blast
qed

lemma res_conv_store:
  assumes "distinct (map fst (entries c))"
      and "retrieve_indexed E c r gs query cid top_k bw dw = Inr results"
      and "res \<in> set results"
  shows "res_conv res = store_conv c (res_id res)"
proof -
  from retrieve_indexed_docs[OF assms(2,3)] obtain items where
    res: "results
           = make_results
               (doc_map (unzip_entries (filter (\<lambda>e. fst e \<in> set (map fst items)) (entries c))))
               items" by blast
  define es where "es = filter (\<lambda>e. fst e \<in> set (map fst items)) (entries c)"
  from assms(3) have "(res_id res, res_score res) \<in> set (map (\<lambda>res. (res_id res, res_score res)) results)"
    by force
  then have "(res_id res, res_score res) \<in> set items"
    by (simp only: res make_results_items)
  then have inn: "res_id res \<in> set (map fst items)" by force
  have dist: "distinct (map fst es)"
    unfolding es_def using assms(1) by (rule distinct_map_filter)
  have mo: "map_of es (res_id res) = map_of (entries c) (res_id res)"
    unfolding es_def using inn by (simp only: map_of_filter_keys if_True)
  have "res_metadata res
          = (case map_of (doc_map (unzip_entries es)) (res_id res) of
               None \<Rightarrow> [] | Some (meta, doc) \<Rightarrow> meta)"
    using assms(3) unfolding res es_def by (rule make_results_metadata)
  also have "\<dots> = (case map_of (entries c) (res_id res) of
                     None \<Rightarrow> []
                   | Some (doc, meta) \<Rightarrow> (case meta of None \<Rightarrow> [] | Some m \<Rightarrow> m))"
    unfolding map_of_doc_map[OF dist] mo by (simp split: option.splits)
  finally show ?thesis
    by (simp add: res_conv_def store_conv_def split: option.splits)
qed

lemma dense_store_conv:
  assumes "distinct (map fst (entries c))"
      and "coll_query c text n cid = Inr (ids, dists)" and "d \<in> set ids"
  shows "store_conv c d = Some (PyStr cid)"
proof -
  from coll_query_shape[OF assms(2)] assms(3) obtain e where
    e: "e \<in> set (entries c)" "fst e = d" "entry_conv e = Some (PyStr cid)" by blast
  obtain doc meta where eq: "e = (d, doc, meta)" using e(2) by (cases e) auto
  with e(1) assms(1) have "map_of (entries c) d = Some (doc, meta)" by simp
  with e(3) eq show ?thesis
    by (simp add: store_conv_def entry_conv_def)
qed

lemma lexical_snapshot_conv:
  assumes "Some d \<in> set (lexical_list r scores cid top_k)"
  shows "snapshot_conv r d = Some (PyStr cid)"
  using assms by (auto simp: lexical_list_def lexical_entry_def split: if_splits)

lemma snapshot_agreesD:
  assumes "snapshot_agrees r c" and "snapshot_conv r d = Some v"
  shows "map_of (entries c) d = None \<or> store_conv c d = Some v"
proof -
  from assms(2) have "map_of (id_to_metadata r) d \<noteq> None"
    by (auto simp: snapshot_conv_def split: option.splits)
  then have "d \<in> set (map fst (id_to_metadata r))"
    by (simp add: map_of_eq_None_iff)
  with assms show ?thesis
    by (auto simp: snapshot_agrees_def list_all_iff)
qed

lemma map_of_dict_of:
  "map_of (foldl (\<lambda>d (k, v). AList.update k v d) acc kvs) = map_of acc ++ map_of (rev kvs)"
  by (induction kvs arbitrary: acc) (auto simp: update_conv' fun_eq_iff map_add_def split: option.splits)

lemma zip_keys_meta:
  "zip (map fst es) (map (snd \<circ> snd) es) = map (\<lambda>e. (fst e, snd (snd e))) es"
  by (induction es) auto

lemma map_of_keys_meta:
  "map_of (map (\<lambda>e. (fst e, snd (snd e))) es) d = map_option snd (map_of es d)"
  by (induction es) auto

lemma rebuild_agrees:
  assumes "distinct (map fst (entries c))" and "rebuild_bm25_index E c r1 = (r2, Inr ())"
  shows "snapshot_agrees r2 c"
proof (cases "entries c = []")
  case True
  with assms(2) have "id_to_metadata r2 = []"
    by (auto simp: rebuild_bm25_index_def coll_get_all_def unzip_entries_def split: if_splits)
  then show ?thesis by (simp add: snapshot_agrees_def)
next
  case False
  let ?kvs = "zip (map fst (entries c)) (map (snd \<circ> snd) (entries c))"
  from assms(2) False have m: "id_to_metadata r2 = dict_of ?kvs"
    by (auto simp: rebuild_bm25_index_def coll_get_all_def unzip_entries_def Let_def
             split: if_splits sum.splits)
  have kv: "?kvs = map (\<lambda>e. (fst e, snd (snd e))) (entries c)"
    by (rule zip_keys_meta)
  have "distinct (map fst ?kvs)" using assms(1) by (simp add: kv comp_def)
  then have "map_of (dict_of ?kvs) = map_of ?kvs"
    by (simp add: dict_of_def map_of_dict_of map_of_rev_distinct)
  moreover have "map_of ?kvs d = map_option snd (map_of (entries c) d)" for d
    unfolding kv by (rule map_of_keys_meta)
  ultimately have "snapshot_conv r2 d = store_conv c d" for d
    by (auto simp: snapshot_conv_def store_conv_def m split: option.splits)
  then show ?thesis by (simp add: snapshot_agrees_def list_all_iff)
qed

lemma council_kept:
  assumes "snd (council_retrieve E c rag q cid) = Inr ctx" "ctx \<noteq> []"
  shows "\<exists>r0 r gs results ids dists parts.
           retriever rag = Some r0
         \<and> retrieve E c r0 q cid 10 0.5 0.5 = (r, Inr results)
         \<and> retrieve_indexed E c r gs q cid 10 0.5 0.5 = Inr results
         \<and> coll_query c q (10 * 2) cid = Inr (ids, dists)
         \<and> (\<forall>ch \<in> set (filtered_chunks results).
               chunk_id ch \<in> set ids \<and> (\<exists>res \<in> set results. ch = to_chunk res))
         \<and> build_context E 0 (filtered_chunks results) = Inr parts
         \<and> ctx = join [CHR 0x0A, CHR 0x0A] parts"
proof -
  from council_sources[OF assms] obtain r0 r gs results ids dists parts where
    r0: "retriever rag = Some r0" and
    ret: "retrieve E c r0 q cid 10 0.5 0.5 = (r, Inr results)" and
    ri: "retrieve_indexed E c r gs q cid 10 0.5 0.5 = Inr results" and
    qr: "coll_query c q (10 * 2) cid = Inr (ids, dists)" and
    key: "\<forall>res \<in> set results.
            (Some (res_id res) \<in> set (lexical_list r (gs (split (lower q))) cid 10)
               \<or> res_id res \<in> set ids)
          \<and> res_score res
              = spec_fused 0.5 0.5 (lexical_list r (gs (split (lower q))) cid 10) ids (res_id res)" and
    bc: "build_context E 0 (filtered_chunks results) = Inr parts" and
    ctx: "ctx = join [CHR 0x0A, CHR 0x0A] parts" by blast
  have "chunk_id ch \<in> set ids \<and> (\<exists>res \<in> set results. ch = to_chunk res)"
    if "ch \<in> set (filtered_chunks results)" for ch
  proof -
    from that obtain res where res: "res \<in> set results" "ch = to_chunk res"
      "\<not> res_score res < threshold"
      by (auto simp: filtered_chunks_def)
    with key single_source_bound[of "res_id res" "lexical_list r (gs (split (lower q))) cid 10" ids]
    have "res_id res \<in> set ids" by auto
    with res show ?thesis by (auto simp: to_chunk_def)
  qed
  with r0 ret ri qr bc ctx show ?thesis by blast
qed

section \<open>What the two paths guarantee\<close>

text \<open>
  Let the identifiers of the collection be distinct. (1) Whenever the snapshot in which
  \<^verbatim>\<open>HybridRetriever.retrieve\<close> runs agrees with the collection on the conversation of the
  identifiers both hold, every result carries the requested conversation id in its
  metadata or none at all. (2) Every chunk that \<^verbatim>\<open>CouncilRAG.retrieve\<close> hands to the
  budget loop carries the requested conversation id, in every state of the snapshot: a
  chunk above the threshold was returned by the dense path, which the store filters.
  (3) The snapshot left by a successful rebuild agrees with the collection it was built
  from.
\<close>

lemma isolation_with_agreeing_snapshot:
  assumes "distinct (map fst (entries c))"
  shows "(\<forall>r0 r results.
            retrieve E c r0 q cid top_k bw dw = (r, Inr results) \<and> snapshot_agrees r c
            \<longrightarrow> (\<forall>res \<in> set results. res_conv res = None \<or> res_conv res = Some (PyStr cid)))
       \<and> (\<forall>rag ctx.
            snd (council_retrieve E c rag q cid) = Inr ctx \<and> ctx \<noteq> []
            \<longrightarrow> (\<exists>r0 r results n parts.
                   retriever rag = Some r0
                 \<and> retrieve E c r0 q cid 10 0.5 0.5 = (r, Inr results)
                 \<and> (\<forall>ch \<in> set (filtered_chunks results).
                       map_of (chunk_metadata ch) ''conversation_id'' = Some (PyStr cid))
                 \<and> map (format_chunk E) (take n (filtered_chunks results)) = map Inr parts
                 \<and> ctx = join [CHR 0x0A, CHR 0x0A] parts))
       \<and> (\<forall>r1 r2. rebuild_bm25_index E c r1 = (r2, Inr ()) \<longrightarrow> snapshot_agrees r2 c)"
proof (intro conjI allI impI)
  fix r0 r results
  assume a: "retrieve E c r0 q cid top_k bw dw = (r, Inr results) \<and> snapshot_agrees r c"
  show "\<forall>res \<in> set results. res_conv res = None \<or> res_conv res = Some (PyStr cid)"
  proof
    fix res assume res: "res \<in> set results"
    with a retrieve_cases[of E c r0 q cid top_k bw dw r results] obtain gs where
      ri: "retrieve_indexed E c r gs q cid top_k bw dw = Inr results" by auto
    from rrf_formula_core[OF ri] res obtain ids dists where
      qr: "coll_query c q (top_k * 2) cid = Inr (ids, dists)" and
      src: "Some (res_id res) \<in> set (lexical_list r (gs (split (lower q))) cid top_k)
              \<or> res_id res \<in> set ids" by blast
    have rc: "res_conv res = store_conv c (res_id res)"
      by (rule res_conv_store[OF assms ri res])
    from src show "res_conv res = None \<or> res_conv res = Some (PyStr cid)"
    proof
      assume "res_id res \<in> set ids"
      from dense_store_conv[OF assms qr this] rc show ?thesis by simp
    next
      assume "Some (res_id res) \<in> set (lexical_list r (gs (split (lower q))) cid top_k)"
      then have "snapshot_conv r (res_id res) = Some (PyStr cid)"
        by (rule lexical_snapshot_conv)
      with a have "map_of (entries c) (res_id res) = None
                 \<or> store_conv c (res_id res) = Some (PyStr cid)"
        using snapshot_agreesD by blast
      with rc show ?thesis by (auto simp: store_conv_def)
    qed
  qed
next
  fix rag ctx
  assume "snd (council_retrieve E c rag q cid) = Inr ctx \<and> ctx \<noteq> []"
  then have run: "snd (council_retrieve E c rag q cid) = Inr ctx" and ne: "ctx \<noteq> []" by simp_all
  from council_kept[OF run ne] obtain r0 r gs results ids dists parts where
    r0: "retriever rag = Some r0" and
    ret: "retrieve E c r0 q cid 10 0.5 0.5 = (r, Inr results)" and
    ri: "retrieve_indexed E c r gs q cid 10 0.5 0.5 = Inr results" and
    qr: "coll_query c q (10 * 2) cid = Inr (ids, dists)" and
    kept: "\<forall>ch \<in> set (filtered_chunks results).
             chunk_id ch \<in> set ids \<and> (\<exists>res \<in> set results. ch = to_chunk res)" and
    bc: "build_context E 0 (filtered_chunks results) = Inr parts" and
    ctx: "ctx = join [CHR 0x0A, CHR 0x0A] parts" by blast
  have conv: "\<forall>ch \<in> set (filtered_chunks results).
                map_of (chunk_metadata ch) ''conversation_id'' = Some (PyStr cid)"
  proof
    fix ch assume "ch \<in> set (filtered_chunks results)"
    with kept obtain res where res: "res \<in> set results" "ch = to_chunk res" "chunk_id ch \<in> set ids"
      by blast
    then have "res_id res \<in> set ids" by (simp add: to_chunk_def)
    from dense_store_conv[OF assms qr this] res_conv_store[OF assms ri res(1)]
    have "res_conv res = Some (PyStr cid)" by simp
    with res(2) show "map_of (chunk_metadata ch) ''conversation_id'' = Some (PyStr cid)"
      by (simp add: res_conv_def to_chunk_def)
  qed
  have fm: "map (format_chunk E) (take (length parts) (filtered_chunks results)) = map Inr parts"
    using build_context_prefix[OF bc] by simp
  from r0 ret conv fm ctx
  show "\<exists>r0 r results n parts.
           retriever rag = Some r0
         \<and> retrieve E c r0 q cid 10 0.5 0.5 = (r, Inr results)
         \<and> (\<forall>ch \<in> set (filtered_chunks results).
               map_of (chunk_metadata ch) ''conversation_id'' = Some (PyStr cid))
         \<and> map (format_chunk E) (take n (filtered_chunks results)) = map Inr parts
         \<and> ctx = join [CHR 0x0A, CHR 0x0A] parts" by blast
next
  fix r1 r2
  assume "rebuild_bm25_index E c r1 = (r2, Inr ())"
  with assms show "snapshot_agrees r2 c" by (rule rebuild_agrees)
qed

section \<open>A leak across conversations\<close>


section \<open>Metadata with missing fields\<close>

text \<open>
  Claim C9 as stated fails: the metadata of \<open>bb\<close> lacks \<open>turn_index\<close>. Both \<open>a\<close> and
  \<open>bb\<close> are returned above the threshold; formatting \<open>bb\<close> raises \<open>KeyError\<close>, the
  \<^verbatim>\<open>try\<close> body fails, and \<^verbatim>\<open>CouncilRAG.retrieve\<close> returns the empty string: the
  chunk is not formatted and the block of \<open>a\<close> is lost with it. With the field present
  the same call returns both blocks.
\<close>

theorem malformed_metadata_counterexample:
  "map_sum id (map res_id) (snd (retrieve E0 ex_store_bad new_retriever ''Capital France'' ''c1'' 10 0.5 0.5))
     = Inr [''a'', ''bb'']
   \<and> map_sum id (map res_score) (snd (retrieve E0 ex_store_bad new_retriever ''Capital France'' ''c1'' 10 0.5 0.5))
     = Inr [123 / 7564, 123 / 7564]
   \<and> threshold < 123 / 7564
   \<and> format_chunk E0 ex_chunk_bad = Inl KeyError
   \<and> snd (retrieve_try E0 ex_store_bad ex_rag ''Capital France'' ''c1'') = Inl KeyError
   \<and> snd (council_retrieve E0 ex_store_bad ex_rag ''Capital France'' ''c1'') = Inr []
   \<and> snd (council_retrieve E0 ex_store ex_rag ''Capital France'' ''c1'')
       = Inr (''[Turn 0 | Stage opinion | Model: m1]'' @ [CHR 0x0A] @ ''capital france paris''
               @ [CHR 0x0A, CHR 0x0A]
               @ ''[Turn 0 | Stage opinion | Model: m2]'' @ [CHR 0x0A] @ ''capital city'')"
  by code_simp

text \<open>
  Claim C9, amended. The defaults 999.0 and 0.0 belong to the write path only:
  \<^verbatim>\<open>index_session\<close> stores \<open>avg_rank\<close> and \<open>consensus_score\<close> from the quality
  metrics of the model, and 999.0 and 0.0 when they are missing. On the read path no default
  is applied: \<^verbatim>\<open>_format_chunk\<close> raises \<open>KeyError\<close> exactly when the metadata of the chunk
  lacks \<open>turn_index\<close>, \<open>stage\<close> or \<open>model\<close>; when such a chunk is within the budget the
  budget loop raises; and \<^verbatim>\<open>CouncilRAG.retrieve\<close> then returns the empty string
  instead of raising.
\<close>

theorem malformed_metadata:
  "(format_chunk E ch = Inl KeyError \<longleftrightarrow>
      map_of (chunk_metadata ch) ''turn_index'' = None
    \<or> map_of (chunk_metadata ch) ''stage'' = None
    \<or> map_of (chunk_metadata ch) ''model'' = None)
   \<and> ((map_of (chunk_metadata ch) ''turn_index'' = None
       \<or> map_of (chunk_metadata ch) ''stage'' = None
       \<or> map_of (chunk_metadata ch) ''model'' = None)
      \<and> used + est_tokens (chunk_text ch) \<le> RAG_MAX_TOKENS
      \<longrightarrow> build_context E used (ch # rest) = Inl KeyError)
   \<and> (enabled rag \<and> snd (retrieve_try E c rag q cid) = Inl KeyError
      \<longrightarrow> snd (council_retrieve E c rag q cid) = Inr [])
   \<and> map_of (make_metadata cid turn stage model topics_str (quality_of qm model) ts) ''avg_rank''
       = Some (PyFloat (get_default (quality_of qm model) ''avg_rank'' 999))
   \<and> map_of (make_metadata cid turn stage model topics_str (quality_of qm model) ts) ''consensus_score''
       = Some (PyFloat (get_default (quality_of qm model) ''consensus_score'' 0))
   \<and> (map_of qm model = None
      \<longrightarrow> map_of (make_metadata cid turn stage model topics_str (quality_of qm model) ts) ''avg_rank''
            = Some (PyFloat 999)
        \<and> map_of (make_metadata cid turn stage model topics_str (quality_of qm model) ts)
              ''consensus_score''
            = Some (PyFloat 0))"
proof -
  have fmt: "format_chunk E ch = Inl KeyError \<longleftrightarrow>
      map_of (chunk_metadata ch) ''turn_index'' = None
    \<or> map_of (chunk_metadata ch) ''stage'' = None
    \<or> map_of (chunk_metadata ch) ''model'' = None"
    by (auto simp: format_chunk_def getitem_def Let_def split: option.splits)
  have bc: "build_context E used (ch # rest) = Inl KeyError"
    if "map_of (chunk_metadata ch) ''turn_index'' = None
       \<or> map_of (chunk_metadata ch) ''stage'' = None
       \<or> map_of (chunk_metadata ch) ''model'' = None"
      and "used + est_tokens (chunk_text ch) \<le> RAG_MAX_TOKENS"
  proof -
    from that(1) fmt have "format_chunk E ch = Inl KeyError" by blast
    with that(2) show ?thesis by (simp add: Let_def)
  qed
  have dg: "snd (council_retrieve E c rag q cid) = Inr []"
    if "enabled rag" "snd (retrieve_try E c rag q cid) = Inl KeyError"
    using that by (auto simp: council_retrieve_def split: prod.splits sum.splits)
  have d1: "map_of (make_metadata cid turn stage model topics_str (quality_of qm model) ts) ''avg_rank''
       = Some (PyFloat (get_default (quality_of qm model) ''avg_rank'' 999))"
    by (simp add: make_metadata_def)
  have d2: "map_of (make_metadata cid turn stage model topics_str (quality_of qm model) ts)
              ''consensus_score''
       = Some (PyFloat (get_default (quality_of qm model) ''consensus_score'' 0))"
    by (simp add: make_metadata_def)
  have d3: "get_default (quality_of qm model) ''avg_rank'' 999 = 999
          \<and> get_default (quality_of qm model) ''consensus_score'' 0 = (0::real)"
    if "map_of qm model = None"
    using that by (simp add: quality_of_def get_default_def)
  from fmt bc dg d1 d2 d3 show ?thesis by auto
qed

theorem malformed_metadata_witness:
  "map_of (chunk_metadata ex_chunk_bad) ''turn_index'' = None
   \<and> format_chunk E0 ex_chunk_bad = Inl KeyError
   \<and> 0 + est_tokens (chunk_text ex_chunk_bad) \<le> RAG_MAX_TOKENS
   \<and> build_context E0 0 [ex_chunk_bad, ex_chunk231 0] = Inl KeyError
   \<and> enabled ex_rag
   \<and> snd (retrieve_try E0 ex_store_bad ex_rag ''Capital France'' ''c1'') = Inl KeyError
   \<and> snd (council_retrieve E0 ex_store_bad ex_rag ''Capital France'' ''c1'') = Inr []
   \<and> map_of [] ''m1'' = (None :: (string \<times> real) list option)
   \<and> map_of (make_metadata ''c1'' 0 ''opinion'' ''m1'' [] (quality_of [] ''m1'') ''t0'') ''avg_rank''
       = Some (PyFloat 999)
   \<and> map_of (make_metadata ''c1'' 0 ''opinion'' ''m1'' [] (quality_of [] ''m1'') ''t0'') ''consensus_score''
       = Some (PyFloat 0)"
proof -
  note mm = malformed_metadata[where E = E0 and ch = ex_chunk_bad and used = 0
              and rest = "[ex_chunk231 0]" and rag = ex_rag and c = ex_store_bad
              and q = "''Capital France''" and cid = "''c1''" and turn = 0 and stage = "''opinion''"
              and model = "''m1''" and topics_str = "[]" and qm = "[]" and ts = "''t0''"]
  have k: "map_of (chunk_metadata ex_chunk_bad) ''turn_index'' = None"
    by (simp add: ex_chunk_bad_def)
  have b: "0 + est_tokens (chunk_text ex_chunk_bad) \<le> RAG_MAX_TOKENS"
    by code_simp
  have e: "enabled ex_rag" by (simp add: ex_rag_def)
  have t: "snd (retrieve_try E0 ex_store_bad ex_rag ''Capital France'' ''c1'') = Inl KeyError"
    by code_simp
  have n: "map_of [] ''m1'' = (None :: (string \<times> real) list option)" by simp
  from mm k have 1: "format_chunk E0 ex_chunk_bad = Inl KeyError" by blast
  from mm k b have 2: "build_context E0 0 [ex_chunk_bad, ex_chunk231 0] = Inl KeyError" by blast
  from mm e t have 3: "snd (council_retrieve E0 ex_store_bad ex_rag ''Capital France'' ''c1'') = Inr []"
    by blast
  from mm n have 4: "map_of (make_metadata ''c1'' 0 ''opinion'' ''m1'' [] (quality_of [] ''m1'') ''t0'')
                       ''avg_rank'' = Some (PyFloat 999)"
    and 5: "map_of (make_metadata ''c1'' 0 ''opinion'' ''m1'' [] (quality_of [] ''m1'') ''t0'')
                       ''consensus_score'' = Some (PyFloat 0)"
    by blast+
  from k 1 b 2 e t 3 n 4 5 show ?thesis by blast
qed

section \<open>Indexing a turn twice\<close>

text \<open>
  Claim C7 as stated fails: the metadata of every document carries the time of the call.
  Indexing the same turn at time \<open>t1\<close> and again at time \<open>t2\<close> leaves the same
  identifiers, but not the same content as after the first call.
\<close>

theorem index_twice_counterexample:
  "map_sum id entries
     (index_session E0 ex_rag ex_store ''t1'' ''c3'' 0 ''which capital''
        [[(''model'', ''m1''), (''response'', ''paris'')]]
        [(''model'', ''chair''), (''response'', ''it is paris'')] [] [])
     = Inr (ex_entries ''t1'')
   \<and> map_sum id entries
     (index_session E0 ex_rag (ex_store\<lparr>entries := ex_entries ''t1''\<rparr>) ''t2'' ''c3'' 0 ''which capital''
        [[(''model'', ''m1''), (''response'', ''paris'')]]
        [(''model'', ''chair''), (''response'', ''it is paris'')] [] [])
     = Inr (ex_entries ''t2'')
   \<and> map fst (ex_entries ''t2'') = map fst (ex_entries ''t1'')
   \<and> ex_entries ''t2'' \<noteq> ex_entries ''t1''"
  by code_simp

lemma fold_update_keys:
  "set (map fst kvs) \<subseteq> set (map fst es)
     \<Longrightarrow> map fst (foldl (\<lambda>d (k, v). AList.update k v d) es kvs) = map fst es"
proof (induction kvs arbitrary: es)
  case Nil
  then show ?case by simp
next
  case (Cons kv kvs)
  obtain k v where kv: "kv = (k, v)" by (cases kv)
  from Cons.prems kv have in_es: "k \<in> set (map fst es)" by simp
  then have keys: "map fst (AList.update k v es) = map fst es" by (simp add: update_keys)
  with Cons.prems have "set (map fst kvs) \<subseteq> set (map fst (AList.update k v es))" by simp
  from Cons.IH[OF this] keys kv show ?case by simp
qed

lemma fold_update_key_set:
  "set (map fst (foldl (\<lambda>d (k, v). AList.update k v d) es kvs)) = set (map fst es) \<union> set (map fst kvs)"
proof (induction kvs arbitrary: es)
  case Nil
  then show ?case by simp
next
  case (Cons kv kvs)
  obtain k v where kv: "kv = (k, v)" by (cases kv)
  have "set (map fst (AList.update k v es)) = insert k (set (map fst es))"
    by (auto simp: update_keys)
  with Cons.IH[of "AList.update k v es"] kv show ?case by auto
qed

lemma fold_update_distinct:
  "distinct (map fst es) \<Longrightarrow> distinct (map fst (foldl (\<lambda>d (k, v). AList.update k v d) es kvs))"
proof (induction kvs arbitrary: es)
  case Nil
  then show ?case by simp
next
  case (Cons kv kvs)
  obtain k v where kv: "kv = (k, v)" by (cases kv)
  from Cons.prems have "distinct (map fst (AList.update k v es))" by (rule distinct_update)
  from Cons.IH[OF this] kv show ?case by simp
qed

lemma alist_eqI:
  assumes "distinct (map fst xs)" and "map fst xs = map fst ys" and "map_of xs = map_of ys"
  shows "xs = ys"
  using assms
proof (induction xs arbitrary: ys)
  case Nil
  then show ?case by simp
next
  case (Cons x xs)
  from Cons.prems(2) obtain y ys' where ys: "ys = y # ys'" and fy: "fst y = fst x"
    and keys: "map fst xs = map fst ys'"
    by (cases ys) auto
  have eq: "map_of (x # xs) k = map_of (y # ys') k" for k
    using Cons.prems(3) ys by (simp only:)
  have hx: "map_of (x # xs) (fst x) = Some (snd x)" by simp
  have hy: "map_of (y # ys') (fst x) = Some (snd y)" using fy by simp
  from eq[of "fst x"] hx hy have "snd x = snd y" by (simp only: option.inject)
  with fy have xy: "x = y" by (simp add: prod_eq_iff)
  from Cons.prems(1) have nin: "fst x \<notin> fst ` set xs" and dxs: "distinct (map fst xs)" by simp_all
  from keys have kset: "fst ` set ys' = fst ` set xs"
    by (metis set_map)
  have "map_of xs k = map_of ys' k" for k
  proof (cases "k = fst x")
    case True
    with nin have "k \<notin> fst ` set xs" by simp
    then have "map_of xs k = None" by (simp add: map_of_eq_None_iff)
    moreover from \<open>k \<notin> fst ` set xs\<close> kset have "k \<notin> fst ` set ys'" by simp
    then have "map_of ys' k = None" by (simp add: map_of_eq_None_iff)
    ultimately show ?thesis by (simp only:)
  next
    case False
    then have "map_of (x # xs) k = map_of xs k" by simp
    moreover from False fy have "map_of (y # ys') k = map_of ys' k" by simp
    ultimately show ?thesis using eq[of k] by (simp only:)
  qed
  then have "map_of xs = map_of ys'" by (rule ext)
  with dxs keys have "xs = ys'" by (rule Cons.IH)
  with xy ys show ?case by (simp only:)
qed

lemma map_of_project: "map_of (map (\<lambda>(k, v). (k, g v)) es) k = map_option g (map_of es k)"
  by (induction es) auto

lemma fold_update_twice:
  assumes "distinct (map fst es)"
      and "map (\<lambda>(k, v). (k, g v)) kvs2 = map (\<lambda>(k, v). (k, g v)) kvs1"
  shows "map (\<lambda>(k, v). (k, g v))
           (foldl (\<lambda>d (k, v). AList.update k v d) (foldl (\<lambda>d (k, v). AList.update k v d) es kvs1) kvs2)
       = map (\<lambda>(k, v). (k, g v)) (foldl (\<lambda>d (k, v). AList.update k v d) es kvs1)"
    and "map fst (foldl (\<lambda>d (k, v). AList.update k v d)
                    (foldl (\<lambda>d (k, v). AList.update k v d) es kvs1) kvs2)
       = map fst (foldl (\<lambda>d (k, v). AList.update k v d) es kvs1)"
proof -
  let ?U = "foldl (\<lambda>d (k, v). AList.update k v d)"
  let ?p = "\<lambda>(k, v). (k, g v)"
  have fstp: "map fst (map ?p xs) = map fst xs" for xs :: "('a \<times> 'b) list"
    by (induction xs) auto
  from assms(2) have "map fst (map ?p kvs2) = map fst (map ?p kvs1)" by simp
  then have k21: "map fst kvs2 = map fst kvs1" by (simp only: fstp)
  have "set (map fst kvs2) \<subseteq> set (map fst (?U es kvs1))"
    unfolding fold_update_key_set k21 by blast
  then show keys: "map fst (?U (?U es kvs1) kvs2) = map fst (?U es kvs1)"
    by (rule fold_update_keys)
  have d1: "distinct (map fst (?U es kvs1))" using assms(1) by (rule fold_update_distinct)
  have proj: "map_option g (map_of (rev kvs2) k) = map_option g (map_of (rev kvs1) k)" for k
  proof -
    have "map_option g (map_of (rev kvs2) k) = map_of (map ?p (rev kvs2)) k"
      by (simp add: map_of_project)
    also have "map ?p (rev kvs2) = map ?p (rev kvs1)"
      using assms(2) by (simp add: rev_map[symmetric])
    finally show ?thesis by (simp add: map_of_project)
  qed
  have mo: "map_of (map ?p (?U (?U es kvs1) kvs2)) k = map_of (map ?p (?U es kvs1)) k" for k
  proof (cases "map_of (rev kvs2) k")
    case None
    then show ?thesis by (simp add: map_of_project map_of_dict_of map_add_def)
  next
    case (Some v2)
    with proj[of k] obtain v1 where v1: "map_of (rev kvs1) k = Some v1" "g v2 = g v1"
      by (cases "map_of (rev kvs1) k") auto
    with Some show ?thesis by (simp add: map_of_project map_of_dict_of map_add_def)
  qed
  show "map ?p (?U (?U es kvs1) kvs2) = map ?p (?U es kvs1)"
  proof (rule alist_eqI)
    show "distinct (map fst (map ?p (?U (?U es kvs1) kvs2)))"
      unfolding fstp keys by (rule d1)
    show "map fst (map ?p (?U (?U es kvs1) kvs2)) = map fst (map ?p (?U es kvs1))"
      unfolding fstp by (rule keys)
    show "map_of (map ?p (?U (?U es kvs1) kvs2)) = map_of (map ?p (?U es kvs1))"
      by (rule ext) (rule mo)
  qed
qed

lemma upsert_entries_fold:
  "upsert_entries es docs
     = foldl (\<lambda>d (k, v). AList.update k v d) es (map (\<lambda>(i, d, m). (i, (Some d, Some m))) docs)"
  unfolding upsert_entries_def by (induction docs arbitrary: es) auto

lemma zip_triples:
  "zip (map fst ds) (zip (map (fst \<circ> snd) ds) (map (snd \<circ> snd) ds)) = ds"
  by (induction ds) auto

lemma index_session_shape:
  assumes "index_session E rag c ts cid turn uq s1 s3 topics qm = Inr c'"
  shows "\<exists>docs. c' = c\<lparr>entries := upsert_entries (entries c) docs\<rparr>
           \<and> (enabled rag \<longrightarrow>
                (\<exists>ops. opinion_docs cid turn uq (json_dumps E topics) qm ts (enumerate 0 s1) = Inr ops
                     \<and> docs = ops @ synthesis_docs cid turn uq (json_dumps E topics) qm ts s3))"
proof (cases "enabled rag")
  case False
  with assms have "c' = c" by (simp add: index_session_def)
  then have "c' = c\<lparr>entries := upsert_entries (entries c) []\<rparr>"
    by (simp add: upsert_entries_def)
  with False show ?thesis by blast
next
  case True
  with assms obtain ops where
    ops: "opinion_docs cid turn uq (json_dumps E topics) qm ts (enumerate 0 s1) = Inr ops"
    by (auto simp: index_session_def Let_def split: sum.splits)
  let ?docs = "ops @ synthesis_docs cid turn uq (json_dumps E topics) qm ts s3"
  have up: "coll_upsert c (map fst ?docs) (map (fst \<circ> snd) ?docs) (map (snd \<circ> snd) ?docs)
              = c\<lparr>entries := upsert_entries (entries c) ?docs\<rparr>"
    unfolding coll_upsert_def zip_triples upsert_entries_def ..
  have "c' = c\<lparr>entries := upsert_entries (entries c) ?docs\<rparr>"
  proof (cases "?docs = []")
    case True
    with assms \<open>enabled rag\<close> ops have "c' = c" by (simp add: index_session_def Let_def)
    with True show ?thesis by (simp add: upsert_entries_def)
  next
    case False
    with assms \<open>enabled rag\<close> ops have
      "c' = coll_upsert c (map fst ?docs) (map (fst \<circ> snd) ?docs) (map (snd \<circ> snd) ?docs)"
      by (simp add: index_session_def Let_def)
    with up show ?thesis by (simp only:)
  qed
  with ops show ?thesis by blast
qed

lemma make_metadata_time:
  "filter (\<lambda>kv. fst kv \<noteq> ''timestamp'') (make_metadata a b s m tp q t2)
     = filter (\<lambda>kv. fst kv \<noteq> ''timestamp'') (make_metadata a b s m tp q t1)"
  by (simp add: make_metadata_def)

lemma opinion_docs_time:
  assumes "opinion_docs cid turn uq tstr qm t1 xs = Inr d1"
      and "opinion_docs cid turn uq tstr qm t2 xs = Inr d2"
  shows "map (\<lambda>(i, d, m). (i, d, filter (\<lambda>kv. fst kv \<noteq> ''timestamp'') m)) d2
       = map (\<lambda>(i, d, m). (i, d, filter (\<lambda>kv. fst kv \<noteq> ''timestamp'') m)) d1"
  using assms
proof (induction xs arbitrary: d1 d2)
  case Nil
  then show ?case by simp
next
  case (Cons x xs)
  obtain idx res where x: "x = (idx, res)" by (cases x)
  from Cons.prems(1) x obtain model body r1 where
    m: "getitem res ''model'' = Inr model" and t: "getitem res ''response'' = Inr body" and
    r1: "opinion_docs cid turn uq tstr qm t1 xs = Inr r1" and
    d1: "d1 = (opinion_id cid turn idx model, format_text uq body,
               make_metadata cid turn ''opinion'' model tstr (quality_of qm model) t1) # r1"
    by (auto split: sum.splits)
  from Cons.prems(2) x m t obtain r2 where
    r2: "opinion_docs cid turn uq tstr qm t2 xs = Inr r2" and
    d2: "d2 = (opinion_id cid turn idx model, format_text uq body,
               make_metadata cid turn ''opinion'' model tstr (quality_of qm model) t2) # r2"
    by (auto split: sum.splits)
  from Cons.IH[OF r1 r2] d1 d2 show ?case
    by (simp add: make_metadata_time[of _ _ _ _ _ _ t2 t1])
qed

lemma synthesis_docs_time:
  "map (\<lambda>(i, d, m). (i, d, filter (\<lambda>kv. fst kv \<noteq> ''timestamp'') m))
       (synthesis_docs cid turn uq tstr qm t2 s3)
     = map (\<lambda>(i, d, m). (i, d, filter (\<lambda>kv. fst kv \<noteq> ''timestamp'') m))
         (synthesis_docs cid turn uq tstr qm t1 s3)"
  by (simp add: synthesis_docs_def Let_def make_metadata_time[of _ _ _ _ _ _ t2 t1])

lemma upsert_twice:
  assumes "distinct (map fst es)"
      and "map (\<lambda>(i, d, m). (i, d, f m)) docs2 = map (\<lambda>(i, d, m). (i, d, f m)) docs1"
  shows "map (\<lambda>e. (fst e, fst (snd e), map_option f (snd (snd e))))
             (upsert_entries (upsert_entries es docs1) docs2)
       = map (\<lambda>e. (fst e, fst (snd e), map_option f (snd (snd e)))) (upsert_entries es docs1)"
    and "map fst (upsert_entries (upsert_entries es docs1) docs2) = map fst (upsert_entries es docs1)"
    and "distinct (map fst (upsert_entries es docs1))"
proof -
  let ?pair = "\<lambda>(i, d, m). (i, (Some d, Some m))"
  let ?g = "\<lambda>(d, m). (d, map_option f m)"
  have conv: "map (\<lambda>(k, v). (k, ?g v)) (map ?pair docs)
                = map (\<lambda>(i, d, m'). (i, (Some d, Some m'))) (map (\<lambda>(i, d, m). (i, d, f m)) docs)"
    for docs :: "(string \<times> string \<times> metadata) list"
    by (induction docs) auto
  have eq: "map (\<lambda>(k, v). (k, ?g v)) (map ?pair docs2) = map (\<lambda>(k, v). (k, ?g v)) (map ?pair docs1)"
    unfolding conv assms(2) ..
  have same: "(\<lambda>e. (fst e, fst (snd e), map_option f (snd (snd e)))) = (\<lambda>(k, v). (k, ?g v))"
    by (auto simp: fun_eq_iff)
  from fold_update_twice(1)[OF assms(1) eq]
  show "map (\<lambda>e. (fst e, fst (snd e), map_option f (snd (snd e))))
             (upsert_entries (upsert_entries es docs1) docs2)
       = map (\<lambda>e. (fst e, fst (snd e), map_option f (snd (snd e)))) (upsert_entries es docs1)"
    unfolding same upsert_entries_fold .
  from fold_update_twice(2)[OF assms(1) eq]
  show "map fst (upsert_entries (upsert_entries es docs1) docs2) = map fst (upsert_entries es docs1)"
    unfolding upsert_entries_fold .
  from fold_update_distinct[OF assms(1)]
  show "distinct (map fst (upsert_entries es docs1))"
    unfolding upsert_entries_fold .
qed

lemma index_session_twice:
  assumes "distinct (map fst (entries c))"
      and "index_session E rag c t1 cid turn uq s1 s3 topics qm = Inr c1"
      and "index_session E rag c1 t2 cid turn uq s1 s3 topics qm = Inr c2"
  shows "\<exists>docs1 docs2.
           c1 = c\<lparr>entries := upsert_entries (entries c) docs1\<rparr>
         \<and> c2 = c1\<lparr>entries := upsert_entries (upsert_entries (entries c) docs1) docs2\<rparr>
         \<and> map (\<lambda>(i, d, m). (i, d, filter (\<lambda>kv. fst kv \<noteq> ''timestamp'') m)) docs2
             = map (\<lambda>(i, d, m). (i, d, filter (\<lambda>kv. fst kv \<noteq> ''timestamp'') m)) docs1
         \<and> (t2 = t1 \<longrightarrow> docs2 = docs1)"
proof -
  let ?strip = "\<lambda>(i, d, m). (i, d, filter (\<lambda>kv. fst kv \<noteq> ''timestamp'') m)"
  from index_session_shape[OF assms(2)] obtain docs1 where
    c1: "c1 = c\<lparr>entries := upsert_entries (entries c) docs1\<rparr>" and
    o1: "enabled rag \<longrightarrow>
           (\<exists>ops. opinion_docs cid turn uq (json_dumps E topics) qm t1 (enumerate 0 s1) = Inr ops
                \<and> docs1 = ops @ synthesis_docs cid turn uq (json_dumps E topics) qm t1 s3)"
    by blast
  from index_session_shape[OF assms(3)] obtain docs2 where
    c2: "c2 = c1\<lparr>entries := upsert_entries (entries c1) docs2\<rparr>" and
    o2: "enabled rag \<longrightarrow>
           (\<exists>ops. opinion_docs cid turn uq (json_dumps E topics) qm t2 (enumerate 0 s1) = Inr ops
                \<and> docs2 = ops @ synthesis_docs cid turn uq (json_dumps E topics) qm t2 s3)"
    by blast
  show ?thesis
  proof (cases "enabled rag")
    case True
    with o1 obtain ops1 where
      p1: "opinion_docs cid turn uq (json_dumps E topics) qm t1 (enumerate 0 s1) = Inr ops1" and
      d1: "docs1 = ops1 @ synthesis_docs cid turn uq (json_dumps E topics) qm t1 s3" by blast
    from True o2 obtain ops2 where
      p2: "opinion_docs cid turn uq (json_dumps E topics) qm t2 (enumerate 0 s1) = Inr ops2" and
      d2: "docs2 = ops2 @ synthesis_docs cid turn uq (json_dumps E topics) qm t2 s3" by blast
    have st: "map ?strip docs2 = map ?strip docs1"
      unfolding d1 d2 map_append
      by (simp only: opinion_docs_time[OF p1 p2] synthesis_docs_time[of _ _ _ _ _ t2 _ t1])
    have same: "t2 = t1 \<longrightarrow> docs2 = docs1"
      using p1 p2 d1 d2 by auto
    from c1 c2 st same show ?thesis by auto
  next
    case False
    with assms(2) have e1: "c1 = c" by (simp add: index_session_def)
    with False assms(3) have e2: "c2 = c" by (simp add: index_session_def)
    have "c1 = c\<lparr>entries := upsert_entries (entries c) []\<rparr>"
      using e1 by (simp add: upsert_entries_def)
    moreover have "c2 = c1\<lparr>entries := upsert_entries (upsert_entries (entries c) []) []\<rparr>"
      using e1 e2 by (simp add: upsert_entries_def)
    ultimately show ?thesis by blast
  qed
qed

text \<open>
  Claim C7, amended. The identifiers of the documents (\<open>opinion_id\<close>, \<open>synthesis_id\<close>)
  do not depend on the time of the call. When a collection with distinct identifiers is
  given the same turn twice, at times \<open>t1\<close> and \<open>t2\<close>, it holds after the second call
  the same identifiers in the same order as after the first, with no duplicate, and every
  entry has the same document and the same metadata but for the \<open>timestamp\<close> field, which
  is the time of the later call. With equal times the second call changes nothing.
\<close>

theorem index_session_idempotent:
  assumes "distinct (map fst (entries c))"
      and "index_session E rag c t1 cid turn uq s1 s3 topics qm = Inr c1"
      and "index_session E rag c1 t2 cid turn uq s1 s3 topics qm = Inr c2"
  shows "map fst (entries c2) = map fst (entries c1)
       \<and> distinct (map fst (entries c2))
       \<and> map strip_timestamp (entries c2) = map strip_timestamp (entries c1)
       \<and> (t2 = t1 \<longrightarrow> c2 = c1)"
proof -
  let ?strip = "\<lambda>(i, d, m). (i, d, filter (\<lambda>kv. fst kv \<noteq> ''timestamp'') m)"
  from index_session_twice[OF assms] obtain docs1 docs2 where
    c1: "c1 = c\<lparr>entries := upsert_entries (entries c) docs1\<rparr>" and
    c2: "c2 = c1\<lparr>entries := upsert_entries (upsert_entries (entries c) docs1) docs2\<rparr>" and
    st: "map ?strip docs2 = map ?strip docs1" and
    same: "t2 = t1 \<longrightarrow> docs2 = docs1" by blast
  from c1 have e1: "entries c1 = upsert_entries (entries c) docs1" by simp
  from c2 have e2: "entries c2 = upsert_entries (upsert_entries (entries c) docs1) docs2" by simp
  have sfun: "strip_timestamp
                = (\<lambda>e. (fst e, fst (snd e), map_option (filter (\<lambda>kv. fst kv \<noteq> ''timestamp'')) (snd (snd e))))"
    by (simp add: fun_eq_iff strip_timestamp_def)
  have keys: "map fst (entries c2) = map fst (entries c1)"
    unfolding e1 e2 by (rule upsert_twice(2)[OF assms(1) st])
  have dist: "distinct (map fst (entries c2))"
    unfolding keys e1 by (rule upsert_twice(3)[OF assms(1) st])
  have strip: "map strip_timestamp (entries c2) = map strip_timestamp (entries c1)"
    unfolding e1 e2 sfun by (rule upsert_twice(1)[OF assms(1) st])
  have idem: "c2 = c1" if "t2 = t1"
  proof -
    from that same have dd: "map (\<lambda>(i, d, m). (i, d, id m)) docs2 = map (\<lambda>(i, d, m). (i, d, id m)) docs1"
      by simp
    have idm: "map (\<lambda>e. (fst e, fst (snd e), map_option id (snd (snd e)))) xs = xs" for xs :: "entry list"
      by (induction xs) (auto simp: option.map_ident option.map_id)
    from upsert_twice(1)[OF assms(1) dd] have "entries c2 = entries c1"
      unfolding e1 e2 idm .
    with c2 e1 show ?thesis by simp
  qed
  from keys dist strip idem show ?thesis by blast
qed

theorem index_session_idempotent_witness:
  "distinct (map fst (entries ex_store))
   \<and> index_session E0 ex_rag ex_store ''t1'' ''c3'' 0 ''which capital''
        [[(''model'', ''m1''), (''response'', ''paris'')]]
        [(''model'', ''chair''), (''response'', ''it is paris'')] [] []
       = Inr (ex_store\<lparr>entries := ex_entries ''t1''\<rparr>)
   \<and> index_session E0 ex_rag (ex_store\<lparr>entries := ex_entries ''t1''\<rparr>) ''t2'' ''c3'' 0 ''which capital''
        [[(''model'', ''m1''), (''response'', ''paris'')]]
        [(''model'', ''chair''), (''response'', ''it is paris'')] [] []
       = Inr (ex_store\<lparr>entries := ex_entries ''t2''\<rparr>)
   \<and> index_session E0 ex_rag (ex_store\<lparr>entries := ex_entries ''t1''\<rparr>) ''t1'' ''c3'' 0 ''which capital''
        [[(''model'', ''m1''), (''response'', ''paris'')]]
        [(''model'', ''chair''), (''response'', ''it is paris'')] [] []
       = Inr (ex_store\<lparr>entries := ex_entries ''t1''\<rparr>)
   \<and> map fst (ex_entries ''t2'') = map fst (ex_entries ''t1'')
   \<and> distinct (map fst (ex_entries ''t2''))
   \<and> map strip_timestamp (ex_entries ''t2'') = map strip_timestamp (ex_entries ''t1'')"
proof -
  have d: "distinct (map fst (entries ex_store))" by (simp add: ex_store_def)
  have run: "index_session E0 ex_rag c ts ''c3'' 0 ''which capital''
        [[(''model'', ''m1''), (''response'', ''paris'')]]
        [(''model'', ''chair''), (''response'', ''it is paris'')] [] []
       = Inr (c\<lparr>entries := upsert_entries (entries c)
               [(''c3:turn:0:opinion:0:m1'', format_text ''which capital'' ''paris'',
                 make_metadata ''c3'' 0 ''opinion'' ''m1'' [] [] ts),
                (''c3:turn:0:synthesis:chair'', format_text ''which capital'' ''it is paris'',
                 make_metadata ''c3'' 0 ''synthesis'' ''chair'' [] [] ts)]\<rparr>)" for c ts
    by (simp add: index_session_def Let_def ex_rag_def synthesis_docs_def get_default_def
          quality_of_def getitem_def coll_upsert_def upsert_entries_def opinion_id_def
          synthesis_id_def str_int_def str_nat.simps[of 0] digit_def E0_def enumerate_eq_zip)
  have r1: "index_session E0 ex_rag ex_store ''t1'' ''c3'' 0 ''which capital''
        [[(''model'', ''m1''), (''response'', ''paris'')]]
        [(''model'', ''chair''), (''response'', ''it is paris'')] [] []
       = Inr (ex_store\<lparr>entries := ex_entries ''t1''\<rparr>)"
    unfolding run by (simp add: upsert_entries_def ex_entries_def ex_store_def)
  have r2: "index_session E0 ex_rag (ex_store\<lparr>entries := ex_entries ''t1''\<rparr>) ''t2'' ''c3'' 0
        ''which capital'' [[(''model'', ''m1''), (''response'', ''paris'')]]
        [(''model'', ''chair''), (''response'', ''it is paris'')] [] []
       = Inr (ex_store\<lparr>entries := ex_entries ''t2''\<rparr>)"
    unfolding run by (simp add: upsert_entries_def ex_entries_def ex_store_def)
  have r3: "index_session E0 ex_rag (ex_store\<lparr>entries := ex_entries ''t1''\<rparr>) ''t1'' ''c3'' 0
        ''which capital'' [[(''model'', ''m1''), (''response'', ''paris'')]]
        [(''model'', ''chair''), (''response'', ''it is paris'')] [] []
       = Inr (ex_store\<lparr>entries := ex_entries ''t1''\<rparr>)"
    unfolding run by (simp add: upsert_entries_def ex_entries_def ex_store_def)
  from index_session_idempotent[OF d r1 r3]
  have same: "ex_store\<lparr>entries := ex_entries ''t1''\<rparr> = ex_store\<lparr>entries := ex_entries ''t1''\<rparr>"
    by simp
  have ent: "entries (ex_store\<lparr>entries := X\<rparr>) = X" for X by simp
  from index_session_idempotent[OF d r1 r2]
  have "map fst (ex_entries ''t2'') = map fst (ex_entries ''t1'')
      \<and> distinct (map fst (ex_entries ''t2''))
      \<and> map strip_timestamp (ex_entries ''t2'') = map strip_timestamp (ex_entries ''t1'')"
    unfolding ent by blast
  with d r1 r2 r3 show ?thesis by blast
qed

end
